theory Spec2Isabelle
  imports Main "HOL-Library.AList"
begin

section \<open>Values, errors and the Python operations the engine uses\<close>

text \<open>
  The engine (\<^verbatim>\<open>src/spyglass/parser/engine.py\<close>, class \<^verbatim>\<open>ProcessDataSource\<close>) works on
  documents loaded from YAML: nested dictionaries, lists, strings and integers. A
  dictionary is an association list, in iteration order; its keys are strings. Scalars
  other than strings, integers and \<^verbatim>\<open>None\<close> are not modelled.
\<close>

datatype val =
    VNone
  | VInt int
  | VStr string
  | VList "val list"
  | VDict "(string \<times> val) list"

text \<open>The exceptions the engine can raise; every one of them ends the run.\<close>

datatype error = KeyError | IndexError | TypeError | AttributeError | AddrFormatError

definition ebind :: "error + 'a \<Rightarrow> ('a \<Rightarrow> error + 'b) \<Rightarrow> error + 'b" where
  "ebind m f = (case m of Inl e \<Rightarrow> Inl e | Inr x \<Rightarrow> f x)"

text \<open>\<^verbatim>\<open>d[k]\<close> on a dictionary: the value, or KeyError.\<close>

definition dict_getitem :: "(string \<times> 'v) list \<Rightarrow> string \<Rightarrow> error + 'v" where
  "dict_getitem d k = (case map_of d k of None \<Rightarrow> Inl KeyError | Some v \<Rightarrow> Inr v)"

text \<open>
  \<^verbatim>\<open>d[k] = v\<close> on a dictionary: an existing key keeps its place, a new key goes to the
  end.
\<close>

definition dict_setitem :: "(string \<times> 'v) list \<Rightarrow> string \<Rightarrow> 'v \<Rightarrow> (string \<times> 'v) list" where
  "dict_setitem d k v = AList.update k v d"

text \<open>\<^verbatim>\<open>xs[i]\<close> on a list: a negative index counts from the end, out of range is IndexError.\<close>

definition list_getitem :: "'a list \<Rightarrow> int \<Rightarrow> error + 'a" where
  "list_getitem xs i =
     (if 0 \<le> i \<and> i < int (length xs) then Inr (xs ! nat i)
      else if i < 0 \<and> - int (length xs) \<le> i then Inr (xs ! nat (int (length xs) + i))
      else Inl IndexError)"

text \<open>\<^verbatim>\<open>x[k]\<close> for a string key \<open>k\<close> on any value.\<close>

fun getitem :: "val \<Rightarrow> string \<Rightarrow> error + val" where
  "getitem (VDict d) k = dict_getitem d k"
| "getitem _ k = Inl TypeError"

text \<open>
  \<^verbatim>\<open>x[i]\<close> for an integer \<open>i\<close> on any value: an element of a list, a one-character
  string of a string; a dictionary has no integer key here.
\<close>

fun getindex :: "val \<Rightarrow> int \<Rightarrow> error + val" where
  "getindex (VList xs) i = list_getitem xs i"
| "getindex (VStr s) i = ebind (list_getitem s i) (\<lambda>c. Inr (VStr [c]))"
| "getindex (VDict d) i = Inl KeyError"
| "getindex _ i = Inl TypeError"

text \<open>\<^verbatim>\<open>x[k] = v\<close> for a string key \<open>k\<close> on any value.\<close>

fun setitem :: "val \<Rightarrow> string \<Rightarrow> val \<Rightarrow> error + val" where
  "setitem (VDict d) k v = Inr (VDict (dict_setitem d k v))"
| "setitem _ k v = Inl TypeError"

section \<open>The netaddr library\<close>

text \<open>
  \<^verbatim>\<open>netaddr\<close> is an external library. What the engine uses of it: \<^verbatim>\<open>IPNetwork(x)\<close>
  parses a CIDR text, \<^verbatim>\<open>list(subnet)\<close> is every address of the subnet from the network
  address up to the last one, \<^verbatim>\<open>str(subnet)\<close> is the address as it was given with the
  prefix length, \<^verbatim>\<open>str(ip)\<close> prints an address. An address is its version (4 or 6) and
  its integer value; a network is the address as given and the prefix length. The parser
  and the address printer are parameters of the model (\<open>IPNetwork\<close> and \<open>str_ip\<close> below);
  \<open>ipv4_IPNetwork\<close> and \<open>ipv4_str\<close> are the instance for IPv4 in dotted-quad notation.
\<close>

datatype ipaddress = IPAddress (ip_version: nat) (ip_value: nat)

record ipnetwork =
  net_version :: nat
  net_value :: nat
  net_prefixlen :: nat

record netaddr =
  IPNetwork :: "val \<Rightarrow> error + ipnetwork"
  str_ip :: "ipaddress \<Rightarrow> string"

definition net_width :: "ipnetwork \<Rightarrow> nat" where
  "net_width n = (if net_version n = 4 then 32 else 128)"

definition net_size :: "ipnetwork \<Rightarrow> nat" where
  "net_size n = 2 ^ (net_width n - net_prefixlen n)"

definition net_first :: "ipnetwork \<Rightarrow> nat" where
  "net_first n = net_value n - net_value n mod net_size n"

definition list_net :: "ipnetwork \<Rightarrow> ipaddress list" where
  "list_net n = map (\<lambda>i. IPAddress (net_version n) (net_first n + i)) [0..<net_size n]"

text \<open>Decimal notation of a number, as \<^verbatim>\<open>str\<close> prints it.\<close>

fun str_nat :: "nat \<Rightarrow> string" where
  "str_nat n =
     (if n < 10 then [''0123456789'' ! n]
      else str_nat (n div 10) @ [''0123456789'' ! (n mod 10)])"

declare str_nat.simps [simp del]

definition str_net :: "netaddr \<Rightarrow> ipnetwork \<Rightarrow> string" where
  "str_net L n =
     str_ip L (IPAddress (net_version n) (net_value n)) @ ''/'' @ str_nat (net_prefixlen n)"

definition ipv4_str :: "ipaddress \<Rightarrow> string" where
  "ipv4_str a =
     (let v = ip_value a
      in str_nat (v div 16777216 mod 256) @ ''.'' @ str_nat (v div 65536 mod 256) @ ''.'' @
         str_nat (v div 256 mod 256) @ ''.'' @ str_nat (v mod 256))"

fun split_on :: "char \<Rightarrow> string \<Rightarrow> string list" where
  "split_on c [] = [[]]"
| "split_on c (x # xs) =
     (if x = c then [] # split_on c xs
      else (case split_on c xs of [] \<Rightarrow> [[x]] | w # ws \<Rightarrow> (x # w) # ws))"

definition digit_val :: "char \<Rightarrow> nat option" where
  "digit_val c =
     map_of [(CHR ''0'', 0), (CHR ''1'', 1), (CHR ''2'', 2), (CHR ''3'', 3), (CHR ''4'', 4),
             (CHR ''5'', 5), (CHR ''6'', 6), (CHR ''7'', 7), (CHR ''8'', 8), (CHR ''9'', 9)] c"

fun parse_nat_acc :: "nat \<Rightarrow> string \<Rightarrow> nat option" where
  "parse_nat_acc acc [] = Some acc"
| "parse_nat_acc acc (c # cs) =
     (case digit_val c of None \<Rightarrow> None | Some d \<Rightarrow> parse_nat_acc (10 * acc + d) cs)"

definition parse_nat :: "string \<Rightarrow> nat option" where
  "parse_nat s = (if s = [] then None else parse_nat_acc 0 s)"

definition ipv4_IPNetwork :: "val \<Rightarrow> error + ipnetwork" where
  "ipv4_IPNetwork x =
     (case x of
        VStr s \<Rightarrow>
          (case split_on (CHR ''/'') s of
             [addr, pfx] \<Rightarrow>
               (case (map parse_nat (split_on (CHR ''.'') addr), parse_nat pfx) of
                  ([Some a, Some b, Some c, Some d], Some p) \<Rightarrow>
                    if a < 256 \<and> b < 256 \<and> c < 256 \<and> d < 256 \<and> p \<le> 32
                    then Inr \<lparr>net_version = 4,
                              net_value = ((a * 256 + b) * 256 + c) * 256 + d,
                              net_prefixlen = p\<rparr>
                    else Inl AddrFormatError
                | _ \<Rightarrow> Inl AddrFormatError)
           | _ \<Rightarrow> Inl AddrFormatError)
      | _ \<Rightarrow> Inl AddrFormatError)"

definition ipv4 :: netaddr where
  "ipv4 = \<lparr>IPNetwork = ipv4_IPNetwork, str_ip = ipv4_str\<rparr>"

section \<open>The engine's state\<close>

text \<open>
  \<^verbatim>\<open>self.data\<close> has the fixed top-level keys that \<^verbatim>\<open>_initialize_intermediary\<close> sets up.
  Of these the engine reads and writes \<^verbatim>\<open>network\<close> and \<^verbatim>\<open>baremetal\<close>:

  \<^item> \<open>network\<close> is \<^verbatim>\<open>self.data['network']\<close>, a value; no two places of it share a
    dictionary object, as in a document loaded from YAML or JSON;
  \<^item> \<open>baremetal\<close> is \<^verbatim>\<open>self.data['baremetal']\<close>: racks, each a dictionary from a host
    name to the host's attribute dictionary. The attribute dictionaries are objects in
    \<open>store\<close>, and a rack holds their addresses, because \<^verbatim>\<open>self.genesis_node\<close> is
    assigned one of these objects and then written through;
  \<^item> \<open>genesis_node\<close> is \<^verbatim>\<open>self.genesis_node\<close>: \<^verbatim>\<open>None\<close>, or the address of an object
    in \<open>store\<close>.
\<close>

record engine =
  network :: val
  baremetal :: "(string \<times> (string \<times> nat) list) list"
  store :: "nat \<Rightarrow> (string \<times> val) list"
  genesis_node :: "nat option"

section \<open>The genesis node (\<^verbatim>\<open>_get_genesis_node_details\<close>, lines 69 to 80)\<close>

text \<open>
  Lines 75 to 77, for one host of a rack: \<open>a\<close> is the object \<^verbatim>\<open>rack_hosts[host]\<close>.
  On a match \<^verbatim>\<open>self.genesis_node\<close> becomes that object, and the object gets the key
  \<^verbatim>\<open>name\<close>.
\<close>

definition genesis_host :: "string \<Rightarrow> nat \<Rightarrow> engine \<Rightarrow> error + engine" where
  "genesis_host host a s =
     ebind (dict_getitem (store s a) ''type'') (\<lambda>t.
       if t = VStr ''genesis''
       then Inr (s\<lparr>genesis_node := Some a,
                   store := (store s)(a := dict_setitem (store s a) ''name'' (VStr host))\<rparr>)
       else Inr s)"

text \<open>Line 74: \<^verbatim>\<open>for host in rack_hosts\<close>.\<close>

fun rack_loop :: "(string \<times> nat) list \<Rightarrow> string list \<Rightarrow> engine \<Rightarrow> error + engine" where
  "rack_loop rack_hosts [] s = Inr s"
| "rack_loop rack_hosts (host # hosts) s =
     ebind (dict_getitem rack_hosts host) (\<lambda>a.
     ebind (genesis_host host a s) (rack_loop rack_hosts hosts))"

text \<open>Lines 72 and 73: \<^verbatim>\<open>for racks in self.data['baremetal'].keys()\<close>.\<close>

fun racks_loop :: "string list \<Rightarrow> engine \<Rightarrow> error + engine" where
  "racks_loop [] s = Inr s"
| "racks_loop (racks # rest) s =
     ebind (dict_getitem (baremetal s) racks) (\<lambda>rack_hosts.
     ebind (rack_loop rack_hosts (map fst rack_hosts) s) (racks_loop rest))"

definition get_genesis_node_details :: "engine \<Rightarrow> error + engine" where
  "get_genesis_node_details s = racks_loop (map fst (baremetal s)) s"

section \<open>The offset rule (\<^verbatim>\<open>_apply_rule_ip_alloc_offset\<close>, lines 161 to 247)\<close>

text \<open>Lines 172 to 179: the six offsets, read from the rule data in this order.\<close>

record offsets =
  default_ip_offset :: val
  oob_ip_offset :: val
  gateway_ip_offset :: val
  ingress_vip_offset :: val
  static_ip_end_offset :: val
  dhcp_ip_end_offset :: val

definition collect_rules :: "val \<Rightarrow> error + offsets" where
  "collect_rules rule_data =
     ebind (getitem rule_data ''default'') (\<lambda>d.
     ebind (getitem rule_data ''oob'') (\<lambda>ob.
     ebind (getitem rule_data ''gateway'') (\<lambda>g.
     ebind (getitem rule_data ''ingress_vip'') (\<lambda>iv.
     ebind (getitem rule_data ''static_ip_end'') (\<lambda>se.
     ebind (getitem rule_data ''dhcp_ip_end'') (\<lambda>de.
     Inr \<lparr>default_ip_offset = d, oob_ip_offset = ob, gateway_ip_offset = g,
          ingress_vip_offset = iv, static_ip_end_offset = se,
          dhcp_ip_end_offset = de\<rparr>))))))"

text \<open>
  \<^verbatim>\<open>ips[i]\<close> where \<open>i\<close> comes from the rule data: an integer indexes the list, anything
  else is a TypeError. \<open>str_at\<close> is \<^verbatim>\<open>str(ips[i])\<close>, \<open>str_at_int\<close> the same for an index
  the code computes itself, and \<open>add_one\<close> is \<^verbatim>\<open>i + 1\<close>.
\<close>

definition ips_getitem :: "ipaddress list \<Rightarrow> val \<Rightarrow> error + ipaddress" where
  "ips_getitem ips i = (case i of VInt k \<Rightarrow> list_getitem ips k | _ \<Rightarrow> Inl TypeError)"

definition str_at :: "netaddr \<Rightarrow> ipaddress list \<Rightarrow> val \<Rightarrow> error + val" where
  "str_at L ips i = ebind (ips_getitem ips i) (\<lambda>a. Inr (VStr (str_ip L a)))"

definition str_at_int :: "netaddr \<Rightarrow> ipaddress list \<Rightarrow> int \<Rightarrow> error + val" where
  "str_at_int L ips i = ebind (list_getitem ips i) (\<lambda>a. Inr (VStr (str_ip L a)))"

definition add_one :: "val \<Rightarrow> error + val" where
  "add_one i = (case i of VInt k \<Rightarrow> Inr (VInt (k + 1)) | _ \<Rightarrow> Inl TypeError)"

text \<open>\<^verbatim>\<open>self.data['network']['vlan_network_data'][net_type]\<close>, read and written.\<close>

definition vlan_network_entry :: "engine \<Rightarrow> string \<Rightarrow> error + val" where
  "vlan_network_entry s net_type =
     ebind (getitem (network s) ''vlan_network_data'') (\<lambda>vnd. getitem vnd net_type)"

definition set_vlan_network_entry :: "engine \<Rightarrow> string \<Rightarrow> val \<Rightarrow> error + engine" where
  "set_vlan_network_entry s net_type v =
     ebind (getitem (network s) ''vlan_network_data'') (\<lambda>vnd.
     ebind (setitem vnd net_type v) (\<lambda>vnd'.
     ebind (setitem (network s) ''vlan_network_data'' vnd') (\<lambda>net'.
     Inr (s\<lparr>network := net'\<rparr>))))"

text \<open>\<^verbatim>\<open>self.data['network']['bgp'][k] = v\<close>.\<close>

definition set_bgp :: "engine \<Rightarrow> string \<Rightarrow> val \<Rightarrow> error + engine" where
  "set_bgp s k v =
     ebind (getitem (network s) ''bgp'') (\<lambda>bgp.
     ebind (setitem bgp k v) (\<lambda>bgp'.
     ebind (setitem (network s) ''bgp'' bgp') (\<lambda>net'.
     Inr (s\<lparr>network := net'\<rparr>))))"

text \<open>\<^verbatim>\<open>self.data['network']['vlan_network_data']['ingress']['subnet'][0]\<close>.\<close>

definition ingress_first_subnet :: "engine \<Rightarrow> error + val" where
  "ingress_first_subnet s =
     ebind (vlan_network_entry s ''ingress'') (\<lambda>ing.
     ebind (getitem ing ''subnet'') (\<lambda>sub. getindex sub 0))"

text \<open>Lines 181 to 191: the ingress VIP and the public service CIDR of the BGP data.\<close>

definition bgp_rule :: "netaddr \<Rightarrow> offsets \<Rightarrow> engine \<Rightarrow> error + engine" where
  "bgp_rule L offs s =
     ebind (ingress_first_subnet s) (\<lambda>cidr.
     ebind (IPNetwork L cidr) (\<lambda>subnet.
     let ips = list_net subnet in
     ebind (str_at L ips (ingress_vip_offset offs)) (\<lambda>vip.
     ebind (set_bgp s ''ingress_vip'' vip) (\<lambda>s1.
     ebind (ingress_first_subnet s1) (\<lambda>cidr'.
     set_bgp s1 ''public_service_cidr'' cidr')))))"

text \<open>
  \<^verbatim>\<open>_get_network_subnets\<close>, lines 54 to 67: the loop over the keys of
  \<^verbatim>\<open>vlan_network_data\<close>, filling the dictionary \<open>network_subnets\<close>; \<open>network_subnet\<close> is
  the expression of lines 61 to 63, the parsed \<^verbatim>\<open>subnet\<close> of one entry. The handler has read
  \<^verbatim>\<open>vlan_network_data['ingress']\<close> before it calls this, so the value iterated is a
  dictionary; iterating anything else is a TypeError here.
\<close>

definition network_subnet :: "netaddr \<Rightarrow> engine \<Rightarrow> string \<Rightarrow> error + ipnetwork" where
  "network_subnet L s net_type =
     ebind (vlan_network_entry s net_type) (\<lambda>ent.
     ebind (getitem ent ''subnet'') (IPNetwork L))"

fun network_subnets_loop ::
  "netaddr \<Rightarrow> engine \<Rightarrow> string list \<Rightarrow> (string \<times> ipnetwork) list \<Rightarrow>
   error + (string \<times> ipnetwork) list" where
  "network_subnets_loop L s [] network_subnets = Inr network_subnets"
| "network_subnets_loop L s (net_type # rest) network_subnets =
     (if net_type \<noteq> ''ingress''
      then ebind (network_subnet L s net_type) (\<lambda>n.
           network_subnets_loop L s rest (dict_setitem network_subnets net_type n))
      else network_subnets_loop L s rest network_subnets)"

definition get_network_subnets :: "netaddr \<Rightarrow> engine \<Rightarrow> error + (string \<times> ipnetwork) list" where
  "get_network_subnets L s =
     ebind (getitem (network s) ''vlan_network_data'') (\<lambda>vnd.
       case vnd of
         VDict d \<Rightarrow> network_subnets_loop L s (map fst d) []
       | _ \<Rightarrow> Inl TypeError)"

text \<open>
  Lines 198 to 240, the body of the loop for one network type: the entry
  \<^verbatim>\<open>vlan_network_data[net_type]\<close> that it builds, key by key in the order of the
  assignments. \<open>subnet\<close> is \<^verbatim>\<open>network_subnets[net_type]\<close>, and \<open>ip_offset_for\<close> is the
  choice of lines 198 to 201.
\<close>

definition ip_offset_for :: "offsets \<Rightarrow> string \<Rightarrow> val" where
  "ip_offset_for offs net_type =
     (if net_type = ''oob'' then oob_ip_offset offs else default_ip_offset offs)"

definition resolve_network ::
  "netaddr \<Rightarrow> offsets \<Rightarrow> ipnetwork \<Rightarrow> string \<Rightarrow> engine \<Rightarrow> error + (string \<times> val) list" where
  "resolve_network L offs subnet net_type s =
     (let ip_offset = ip_offset_for offs net_type;
          ips = list_net subnet;
          e1 = dict_setitem [] ''network'' (VStr (str_net L subnet))
      in
      ebind (str_at L ips (gateway_ip_offset offs)) (\<lambda>gateway.
      let e2 = dict_setitem e1 ''gateway'' gateway in
      ebind (str_at L ips (VInt 1)) (\<lambda>reserved_start.
      let e3 = dict_setitem e2 ''reserved_start'' reserved_start in
      ebind (str_at L ips ip_offset) (\<lambda>reserved_end.
      let e4 = dict_setitem e3 ''reserved_end'' reserved_end in
      ebind (ebind (add_one ip_offset) (str_at L ips)) (\<lambda>static_start.
      ebind (str_at L ips (static_ip_end_offset offs)) (\<lambda>static_end.
      ebind (if net_type = ''pxe''
             then (let mid = int (length ips) div 2 in
                   ebind (str_at_int L ips (mid - 1)) (\<lambda>static_end'.
                   ebind (str_at_int L ips mid) (\<lambda>dhcp_start.
                   ebind (str_at L ips (dhcp_ip_end_offset offs)) (\<lambda>dhcp_end.
                   Inr (static_end',
                        dict_setitem (dict_setitem e4 ''dhcp_start'' dhcp_start)
                          ''dhcp_end'' dhcp_end)))))
             else Inr (static_end, e4)) (\<lambda>(static_end, e5).
      let e6 = dict_setitem e5 ''static_start'' static_start;
          e7 = dict_setitem e6 ''static_end'' static_end
      in
      ebind (if net_type \<noteq> ''oob''
             then ebind (vlan_network_entry s net_type) (\<lambda>ent.
                  ebind (getitem ent ''vlan'') (\<lambda>vlan.
                  Inr (dict_setitem e7 ''vlan'' vlan)))
             else Inr e7) (\<lambda>e8.
      let routes = (if net_type = ''oam'' then [VStr ''0.0.0.0/0''] else [])
      in Inr (dict_setitem e8 ''routes'' (VList routes))))))))))"

text \<open>
  Lines 197 to 244: \<^verbatim>\<open>for net_type in network_subnets\<close>; each round builds the entry
  and stores it in \<^verbatim>\<open>self.data\<close> in place of the old one.
\<close>

fun alloc_loop ::
  "netaddr \<Rightarrow> offsets \<Rightarrow> (string \<times> ipnetwork) list \<Rightarrow> string list \<Rightarrow> engine \<Rightarrow>
   error + engine" where
  "alloc_loop L offs network_subnets [] s = Inr s"
| "alloc_loop L offs network_subnets (net_type # rest) s =
     ebind (dict_getitem network_subnets net_type) (\<lambda>subnet.
     ebind (resolve_network L offs subnet net_type s) (\<lambda>e.
     ebind (set_vlan_network_entry s net_type (VDict e))
       (alloc_loop L offs network_subnets rest)))"

definition apply_rule_ip_alloc_offset :: "netaddr \<Rightarrow> val \<Rightarrow> engine \<Rightarrow> error + engine" where
  "apply_rule_ip_alloc_offset L rule_data s =
     ebind (collect_rules rule_data) (\<lambda>offs.
     ebind (bgp_rule L offs s) (\<lambda>s1.
     ebind (get_network_subnets L s1) (\<lambda>network_subnets.
     alloc_loop L offs network_subnets (map fst network_subnets) s1)))"

text \<open>Lines 155 to 159: the two placeholder handlers.\<close>

definition apply_rule_host_profile_interfaces :: "val \<Rightarrow> engine \<Rightarrow> error + engine" where
  "apply_rule_host_profile_interfaces rule_data s = Inr s"

definition apply_rule_hardware_profile :: "val \<Rightarrow> engine \<Rightarrow> error + engine" where
  "apply_rule_hardware_profile rule_data s = Inr s"

section \<open>The dispatcher (\<^verbatim>\<open>_apply_design_rules\<close>, lines 130 to 153)\<close>

text \<open>
  \<^verbatim>\<open>getattr(self, function_str)\<close>: the methods of the class whose names start with
  \<^verbatim>\<open>_apply_rule_\<close> are the three handlers; any other such name is an AttributeError.
\<close>

definition getattr_self :: "netaddr \<Rightarrow> string \<Rightarrow> error + (val \<Rightarrow> engine \<Rightarrow> error + engine)" where
  "getattr_self L function_str =
     (if function_str = ''_apply_rule_host_profile_interfaces''
      then Inr apply_rule_host_profile_interfaces
      else if function_str = ''_apply_rule_hardware_profile''
      then Inr apply_rule_hardware_profile
      else if function_str = ''_apply_rule_ip_alloc_offset''
      then Inr (apply_rule_ip_alloc_offset L)
      else Inl AttributeError)"

text \<open>Lines 148 to 152, for one key \<open>rule\<close> of the rule definitions.\<close>

definition apply_design_rule ::
  "netaddr \<Rightarrow> (string \<times> val) list \<Rightarrow> string \<Rightarrow> engine \<Rightarrow> error + engine" where
  "apply_design_rule L rules_data rule s =
     ebind (dict_getitem rules_data rule) (\<lambda>r.
     ebind (getitem r ''name'') (\<lambda>rule_name.
     case rule_name of
       VStr n \<Rightarrow>
         (let function_str = ''_apply_rule_'' @ n in
          ebind (getitem r n) (\<lambda>rule_data_name.
          ebind (getattr_self L function_str) (\<lambda>function.
          function rule_data_name s)))
     | _ \<Rightarrow> Inl TypeError))"

fun rules_loop ::
  "netaddr \<Rightarrow> (string \<times> val) list \<Rightarrow> string list \<Rightarrow> engine \<Rightarrow> error + engine" where
  "rules_loop L rules_data [] s = Inr s"
| "rules_loop L rules_data (rule # rest) s =
     ebind (apply_design_rule L rules_data rule s) (rules_loop L rules_data rest)"

text \<open>
  The rule definitions are read from \<^verbatim>\<open>config/rules.yaml\<close>; the loaded document is the
  parameter \<open>rules_data\<close>.
\<close>

definition apply_design_rules :: "netaddr \<Rightarrow> (string \<times> val) list \<Rightarrow> engine \<Rightarrow> error + engine" where
  "apply_design_rules L rules_data s = rules_loop L rules_data (map fst rules_data) s"

text \<open>\<^verbatim>\<open>generate_intermediary_yaml\<close>, lines 283 to 289.\<close>

definition generate_intermediary_yaml ::
  "netaddr \<Rightarrow> (string \<times> val) list \<Rightarrow> engine \<Rightarrow> error + engine" where
  "generate_intermediary_yaml L rules_data s =
     ebind (apply_design_rules L rules_data s) get_genesis_node_details"

definition all_hosts :: "engine \<Rightarrow> (string \<times> nat) list" where
  "all_hosts s = concat (map snd (baremetal s))"

definition is_genesis :: "engine \<Rightarrow> nat \<Rightarrow> bool" where
  "is_genesis s a = (dict_getitem (store s a) ''type'' = Inr (VStr ''genesis''))"

definition genesis_hosts :: "engine \<Rightarrow> (string \<times> nat) list" where
  "genesis_hosts s = filter (\<lambda>p. is_genesis s (snd p)) (all_hosts s)"

definition wf_baremetal :: "engine \<Rightarrow> bool" where
  "wf_baremetal s = (distinct (map fst (baremetal s)) \<and>
     list_all (\<lambda>r. distinct (map fst (snd r))) (baremetal s))"

definition all_typed :: "engine \<Rightarrow> bool" where
  "all_typed s = list_all (\<lambda>p. \<not> isl (dict_getitem (store s (snd p)) ''type'')) (all_hosts s)"

fun scan_hosts :: "(string \<times> nat) list \<Rightarrow> engine \<Rightarrow> error + engine" where
  "scan_hosts [] s = Inr s"
| "scan_hosts (p # ps) s = ebind (genesis_host (fst p) (snd p) s) (scan_hosts ps)"

definition bgp_field :: "engine \<Rightarrow> string \<Rightarrow> error + val" where
  "bgp_field s k = ebind (getitem (network s) ''bgp'') (\<lambda>bgp. getitem bgp k)"

definition example_network :: val where
  "example_network = VDict [
     (''vlan_network_data'', VDict [
        (''ingress'', VDict [(''subnet'', VList [VStr ''10.0.1.0/24'', VStr ''10.0.9.0/24'']),
                             (''vlan'', VStr ''20'')]),
        (''oob'', VDict [(''subnet'', VStr ''10.0.2.0/24'')]),
        (''pxe'', VDict [(''subnet'', VStr ''10.0.3.0/24''), (''vlan'', VStr ''21'')]),
        (''oam'', VDict [(''subnet'', VStr ''10.0.4.0/24''), (''vlan'', VStr ''22'')]),
        (''storage'', VDict [(''subnet'', VStr ''192.168.10.0/24''), (''vlan'', VStr ''23''),
                             (''mtu'', VInt 9000)])]),
     (''bgp'', VDict [(''asnumber'', VInt 64671)])]"

definition example_rule_data :: val where
  "example_rule_data = VDict [(''default'', VInt 50), (''oob'', VInt 10), (''gateway'', VInt 1),
     (''ingress_vip'', VInt 5), (''static_ip_end'', VInt 200), (''dhcp_ip_end'', VInt 220)]"

definition example_store :: "nat \<Rightarrow> (string \<times> val) list" where
  "example_store a = (if a = 0 then [(''type'', VStr ''worker'')] else [(''type'', VStr ''genesis'')])"

definition example_engine :: engine where
  "example_engine = \<lparr>network = example_network,
     baremetal = [(''rack1'', [(''h1'', 0), (''h2'', 1), (''h3'', 2)])],
     store = example_store, genesis_node = None\<rparr>"

definition example_network' :: val where
  "example_network' = VDict [
     (''vlan_network_data'', VDict [
        (''ingress'', VDict [(''subnet'', VList [VStr ''10.0.1.0/24'', VStr ''10.0.9.0/24'']),
                             (''vlan'', VStr ''20'')]),
        (''oob'', VDict [(''network'', VStr ''10.0.2.0/24''), (''gateway'', VStr ''10.0.2.1''),
              (''reserved_start'', VStr ''10.0.2.1''), (''reserved_end'', VStr ''10.0.2.10''),
              (''static_start'', VStr ''10.0.2.11''), (''static_end'', VStr ''10.0.2.200''),
              (''routes'', VList [])]),
        (''pxe'', VDict [(''network'', VStr ''10.0.3.0/24''), (''gateway'', VStr ''10.0.3.1''),
              (''reserved_start'', VStr ''10.0.3.1''), (''reserved_end'', VStr ''10.0.3.50''),
              (''dhcp_start'', VStr ''10.0.3.128''), (''dhcp_end'', VStr ''10.0.3.220''),
              (''static_start'', VStr ''10.0.3.51''), (''static_end'', VStr ''10.0.3.127''),
              (''vlan'', VStr ''21''), (''routes'', VList [])]),
        (''oam'', VDict [(''network'', VStr ''10.0.4.0/24''), (''gateway'', VStr ''10.0.4.1''),
              (''reserved_start'', VStr ''10.0.4.1''), (''reserved_end'', VStr ''10.0.4.50''),
              (''static_start'', VStr ''10.0.4.51''), (''static_end'', VStr ''10.0.4.200''),
              (''vlan'', VStr ''22''), (''routes'', VList [VStr ''0.0.0.0/0''])]),
        (''storage'', VDict [(''network'', VStr ''192.168.10.0/24''),
              (''gateway'', VStr ''192.168.10.1''),
              (''reserved_start'', VStr ''192.168.10.1''), (''reserved_end'', VStr ''192.168.10.50''),
              (''static_start'', VStr ''192.168.10.51''), (''static_end'', VStr ''192.168.10.200''),
              (''vlan'', VStr ''23''), (''routes'', VList [])])]),
     (''bgp'', VDict [(''asnumber'', VInt 64671), (''ingress_vip'', VStr ''10.0.1.5''),
                      (''public_service_cidr'', VStr ''10.0.1.0/24'')])]"

definition host_entry :: "engine \<Rightarrow> string \<Rightarrow> string \<Rightarrow> error + (string \<times> val) list" where
  "host_entry s rack host =
     ebind (dict_getitem (baremetal s) rack) (\<lambda>rack_hosts.
     ebind (dict_getitem rack_hosts host) (\<lambda>a. Inr (store s a)))"

definition no_genesis_engine :: engine where
  "no_genesis_engine = \<lparr>network = VDict [],
     baremetal = [(''rack1'', [(''h1'', 0)]), (''rack2'', [(''h2'', 0)])],
     store = (\<lambda>a. [(''type'', VStr ''worker'')]), genesis_node = None\<rparr>"

definition single_genesis_engine :: engine where
  "single_genesis_engine = \<lparr>network = VDict [],
     baremetal = [(''rack1'', [(''h1'', 7)])],
     store = (\<lambda>a. [(''type'', VStr ''genesis''), (''oob'', VStr ''10.0.2.9'')]),
     genesis_node = None\<rparr>"

definition has_field :: "(string \<times> val) list \<Rightarrow> string \<Rightarrow> error + val \<Rightarrow> bool" where
  "has_field e k r = (case r of Inl _ \<Rightarrow> False | Inr v \<Rightarrow> map_of e k = Some v)"

definition entry_keys :: "string \<Rightarrow> string list" where
  "entry_keys net_type =
     [''network'', ''gateway'', ''reserved_start'', ''reserved_end''] @
     (if net_type = ''pxe'' then [''dhcp_start'', ''dhcp_end''] else []) @
     [''static_start'', ''static_end''] @
     (if net_type \<noteq> ''oob'' then [''vlan''] else []) @
     [''routes'']"

definition entry_field :: "engine \<Rightarrow> string \<Rightarrow> string \<Rightarrow> error + val" where
  "entry_field s net_type k = ebind (vlan_network_entry s net_type) (\<lambda>ent. getitem ent k)"

definition example_offsets :: offsets where
  "example_offsets = \<lparr>default_ip_offset = VInt 50, oob_ip_offset = VInt 10,
     gateway_ip_offset = VInt 1, ingress_vip_offset = VInt 5,
     static_ip_end_offset = VInt 200, dhcp_ip_end_offset = VInt 220\<rparr>"

definition example_engine' :: engine where
  "example_engine' = example_engine\<lparr>network := example_network'\<rparr>"

definition ingress_subnets :: "engine \<Rightarrow> error + val" where
  "ingress_subnets s =
     ebind (vlan_network_entry s ''ingress'') (\<lambda>ing. getitem ing ''subnet'')"

lemma ebind_Inr [simp]: "ebind (Inr x) f = f x" by (simp add: ebind_def)
lemma ebind_Inl [simp]: "ebind (Inl e) f = Inl e" by (simp add: ebind_def)
lemma ebind_eq_Inr: "(ebind m f = Inr y) = (\<exists>x. m = Inr x \<and> f x = Inr y)"
  by (cases m) simp_all
lemma ebind_assoc: "ebind (ebind m f) g = ebind m (\<lambda>x. ebind (f x) g)"
  by (cases m) simp_all
lemma ebind_return [simp]: "ebind m Inr = m"  by (cases m) simp_all
lemma ebind_cong: "(\<And>x. m = Inr x \<Longrightarrow> f x = g x) \<Longrightarrow> ebind m f = ebind m g"
  by (cases m) simp_all

lemma dict_getitem_eq_Inr: "(dict_getitem d k = Inr v) = (map_of d k = Some v)"
  by (simp add: dict_getitem_def split: option.splits)

lemma dict_getitem_setitem:
  "dict_getitem (dict_setitem d k v) k' = (if k' = k then Inr v else dict_getitem d k')"
  by (simp add: dict_getitem_def dict_setitem_def update_conv')

lemma dict_getitem_member:
  "distinct (map fst d) \<Longrightarrow> (k, v) \<in> set d \<Longrightarrow> dict_getitem d k = Inr v"
  by (simp add: dict_getitem_def)

lemma rack_loop_scan:
  "distinct (map fst hs) \<Longrightarrow> set ys \<subseteq> set hs \<Longrightarrow> rack_loop hs (map fst ys) s = scan_hosts ys s"
proof (induction ys arbitrary: s)
  case Nil
  then show ?case by simp
next
  case (Cons y ys)
  have "dict_getitem hs (fst y) = Inr (snd y)"
    using Cons.prems by (intro dict_getitem_member) auto
  moreover have "rack_loop hs (map fst ys) = scan_hosts ys"
    using Cons by (intro ext) simp
  ultimately show ?case by simp
qed

lemma scan_hosts_append: "scan_hosts (xs @ ys) s = ebind (scan_hosts xs s) (scan_hosts ys)"
  by (induction xs arbitrary: s) (auto simp: ebind_assoc intro: ebind_cong)

lemma genesis_host_baremetal: "genesis_host h a s = Inr s' \<Longrightarrow> baremetal s' = baremetal s \<and> network s' = network s"
  by (auto simp: genesis_host_def ebind_eq_Inr split: if_splits)

lemma scan_hosts_baremetal: "scan_hosts ps s = Inr s' \<Longrightarrow> baremetal s' = baremetal s \<and> network s' = network s"
proof (induction ps arbitrary: s)
  case Nil then show ?case by simp
next
  case (Cons p ps)
  then obtain t where t: "genesis_host (fst p) (snd p) s = Inr t" "scan_hosts ps t = Inr s'"
    by (auto simp: ebind_eq_Inr)
  with Cons.IH[of t] genesis_host_baremetal[of "fst p" "snd p" s t] show ?case by simp
qed

lemma racks_loop_scan:
  "wf_baremetal s \<Longrightarrow> set rs \<subseteq> set (baremetal s) \<Longrightarrow>
   racks_loop (map fst rs) s = scan_hosts (concat (map snd rs)) s"
proof (induction rs arbitrary: s)
  case Nil then show ?case by simp
next
  case (Cons r rs)
  have g: "dict_getitem (baremetal s) (fst r) = Inr (snd r)"
    using Cons.prems by (intro dict_getitem_member) (auto simp: wf_baremetal_def)
  have d: "distinct (map fst (snd r))"
    using Cons.prems by (auto simp: wf_baremetal_def list_all_iff)
  have rl: "rack_loop (snd r) (map fst (snd r)) s = scan_hosts (snd r) s"
    using d by (rule rack_loop_scan) simp
  show ?case
  proof (cases "scan_hosts (snd r) s")
    case (Inl e)
    then show ?thesis by (simp add: g rl scan_hosts_append)
  next
    case (Inr t)
    then have bt: "baremetal t = baremetal s" by (simp add: scan_hosts_baremetal)
    then have "wf_baremetal t" "set rs \<subseteq> set (baremetal t)"
      using Cons.prems by (auto simp: wf_baremetal_def)
    then have "racks_loop (map fst rs) t = scan_hosts (concat (map snd rs)) t"
      by (rule Cons.IH)
    then show ?thesis by (simp add: g rl scan_hosts_append Inr)
  qed
qed

lemma get_genesis_scan:
  "wf_baremetal s \<Longrightarrow> get_genesis_node_details s = scan_hosts (all_hosts s) s"
  unfolding get_genesis_node_details_def all_hosts_def by (rule racks_loop_scan) simp_all

lemma genesis_host_type:
  "genesis_host h a s = Inr s' \<Longrightarrow> k \<noteq> ''name'' \<Longrightarrow>
   dict_getitem (store s' b) k = dict_getitem (store s b) k"
  by (auto simp: genesis_host_def ebind_eq_Inr dict_getitem_setitem split: if_splits)

lemma scan_hosts_type:
  "scan_hosts ps s = Inr s' \<Longrightarrow> k \<noteq> ''name'' \<Longrightarrow>
   dict_getitem (store s' b) k = dict_getitem (store s b) k"
proof (induction ps arbitrary: s)
  case Nil then show ?case by simp
next
  case (Cons p ps)
  then obtain t where t: "genesis_host (fst p) (snd p) s = Inr t" "scan_hosts ps t = Inr s'"
    by (auto simp: ebind_eq_Inr)
  show ?case
    using Cons.IH[OF t(2) Cons.prems(2)] genesis_host_type[OF t(1) Cons.prems(2)] by simp
qed

lemma scan_hosts_is_genesis:
  "scan_hosts ps s = Inr s' \<Longrightarrow> is_genesis s' b = is_genesis s b"
  by (simp add: is_genesis_def scan_hosts_type)

lemma genesis_host_match:
  "is_genesis s a \<Longrightarrow>
   genesis_host h a s = Inr (s\<lparr>genesis_node := Some a,
      store := (store s)(a := dict_setitem (store s a) ''name'' (VStr h))\<rparr>)"
  by (simp add: genesis_host_def is_genesis_def)

lemma genesis_host_no_match:
  "\<not> is_genesis s a \<Longrightarrow> genesis_host h a s = Inr s' \<Longrightarrow> s' = s"
  by (auto simp: genesis_host_def is_genesis_def ebind_eq_Inr split: if_splits)

lemma scan_hosts_snoc:
  "scan_hosts (ps @ [p]) s = Inr s' \<longleftrightarrow>
   (\<exists>t. scan_hosts ps s = Inr t \<and> genesis_host (fst p) (snd p) t = Inr s')"
  by (simp add: scan_hosts_append ebind_eq_Inr)

lemma scan_hosts_genesis_node:
  "scan_hosts ps s = Inr s' \<Longrightarrow>
   genesis_node s' =
     (if filter (\<lambda>p. is_genesis s (snd p)) ps = [] then genesis_node s
      else Some (snd (last (filter (\<lambda>p. is_genesis s (snd p)) ps))))"
proof (induction ps arbitrary: s' rule: rev_induct)
  case Nil then show ?case by simp
next
  case (snoc p ps)
  then obtain t where t: "scan_hosts ps s = Inr t" "genesis_host (fst p) (snd p) t = Inr s'"
    by (auto simp: scan_hosts_snoc)
  have g: "is_genesis t (snd p) = is_genesis s (snd p)"
    using t(1) by (rule scan_hosts_is_genesis)
  show ?case
  proof (cases "is_genesis s (snd p)")
    case True
    then have "s' = t\<lparr>genesis_node := Some (snd p),
        store := (store t)(snd p := dict_setitem (store t (snd p)) ''name'' (VStr (fst p)))\<rparr>"
      using t(2) g by (simp add: genesis_host_match)
    then show ?thesis using True by simp
  next
    case False
    then have "s' = t" using t(2) g by (simp add: genesis_host_no_match)
    then show ?thesis using snoc.IH[OF t(1)] False by simp
  qed
qed

lemma scan_hosts_store:
  "scan_hosts ps s = Inr s' \<Longrightarrow>
   store s' a =
     (if filter (\<lambda>p. is_genesis s (snd p) \<and> snd p = a) ps = [] then store s a
      else dict_setitem (store s a) ''name''
             (VStr (fst (last (filter (\<lambda>p. is_genesis s (snd p) \<and> snd p = a) ps)))))"
proof (induction ps arbitrary: s' rule: rev_induct)
  case Nil then show ?case by simp
next
  case (snoc p ps)
  then obtain t where t: "scan_hosts ps s = Inr t" "genesis_host (fst p) (snd p) t = Inr s'"
    by (auto simp: scan_hosts_snoc)
  have g: "is_genesis t (snd p) = is_genesis s (snd p)"
    using t(1) by (rule scan_hosts_is_genesis)
  show ?case
  proof (cases "is_genesis s (snd p)")
    case True
    then have "s' = t\<lparr>genesis_node := Some (snd p),
        store := (store t)(snd p := dict_setitem (store t (snd p)) ''name'' (VStr (fst p)))\<rparr>"
      using t(2) g by (simp add: genesis_host_match)
    then have st: "store s' a =
        (if snd p = a then dict_setitem (store t a) ''name'' (VStr (fst p)) else store t a)"
      by auto
    show ?thesis
    proof (cases "snd p = a")
      case eq: True
      show ?thesis using st eq True snoc.IH[OF t(1)] by (simp add: dict_setitem_def)
    next
      case neq: False
      show ?thesis using st neq snoc.IH[OF t(1)] by simp
    qed
  next
    case False
    then have "s' = t" using t(2) g by (simp add: genesis_host_no_match)
    then show ?thesis using snoc.IH[OF t(1)] False by simp
  qed
qed

lemma scan_hosts_total:
  "list_all (\<lambda>p. \<not> isl (dict_getitem (store s (snd p)) ''type'')) ps \<Longrightarrow>
   \<exists>s'. scan_hosts ps s = Inr s'"
proof (induction ps arbitrary: s)
  case Nil then show ?case by simp
next
  case (Cons p ps)
  from Cons.prems obtain v where v: "dict_getitem (store s (snd p)) ''type'' = Inr v"
    by (cases "dict_getitem (store s (snd p)) ''type''") auto
  then obtain t where t: "genesis_host (fst p) (snd p) s = Inr t"
    by (cases "v = VStr ''genesis''") (auto simp: genesis_host_def)
  have "list_all (\<lambda>p. \<not> isl (dict_getitem (store t (snd p)) ''type'')) ps"
    using Cons.prems by (simp add: genesis_host_type[OF t])
  from Cons.IH[OF this] show ?case by (simp add: t)
qed

lemma scan_hosts_no_match:
  "list_all (\<lambda>p. \<not> isl (dict_getitem (store s (snd p)) ''type'') \<and> \<not> is_genesis s (snd p)) ps \<Longrightarrow>
   scan_hosts ps s = Inr s"
proof (induction ps)
  case Nil then show ?case by simp
next
  case (Cons p ps)
  from Cons.prems obtain v where v: "dict_getitem (store s (snd p)) ''type'' = Inr v"
    by (cases "dict_getitem (store s (snd p)) ''type''") auto
  moreover have "v \<noteq> VStr ''genesis''" using Cons.prems v by (auto simp: is_genesis_def)
  ultimately have "genesis_host (fst p) (snd p) s = Inr s"
    by (simp add: genesis_host_def)
  then show ?case using Cons by simp
qed

lemma getitem_eq_Inr: "(getitem x k = Inr v) = (\<exists>d. x = VDict d \<and> map_of d k = Some v)"
  by (cases x) (simp_all add: dict_getitem_eq_Inr)

lemma setitem_eq_Inr: "(setitem x k v = Inr y) = (\<exists>d. x = VDict d \<and> y = VDict (dict_setitem d k v))"
  by (cases x) auto

lemma map_of_setitem: "map_of (dict_setitem d k v) k' = (if k' = k then Some v else map_of d k')"
  by (simp add: dict_setitem_def update_conv')

lemma set_bgp_frame:
  assumes "set_bgp s k v = Inr s'"
  shows "vlan_network_entry s' n = vlan_network_entry s n"
    and "bgp_field s' k' = (if k' = k then Inr v else bgp_field s k')"
    and "baremetal s' = baremetal s" and "store s' = store s" and "genesis_node s' = genesis_node s"
  using assms
  by (auto simp: set_bgp_def vlan_network_entry_def bgp_field_def ebind_eq_Inr getitem_eq_Inr
      setitem_eq_Inr dict_getitem_setitem dict_getitem_def map_of_setitem)

lemma set_vlan_network_entry_frame:
  assumes "set_vlan_network_entry s n v = Inr s'"
  shows "vlan_network_entry s' n' = (if n' = n then Inr v else vlan_network_entry s n')"
    and "bgp_field s' k = bgp_field s k"
    and "baremetal s' = baremetal s" and "store s' = store s" and "genesis_node s' = genesis_node s"
  using assms
  by (auto simp: set_vlan_network_entry_def vlan_network_entry_def bgp_field_def ebind_eq_Inr
      getitem_eq_Inr setitem_eq_Inr dict_getitem_setitem dict_getitem_def map_of_setitem)

lemma ingress_first_subnet_cong:
  "vlan_network_entry t ''ingress'' = vlan_network_entry s ''ingress'' \<Longrightarrow>
   ingress_first_subnet t = ingress_first_subnet s"
  by (simp add: ingress_first_subnet_def)

lemma bgp_rule_result:
  assumes "bgp_rule L offs s = Inr s'"
  shows "\<exists>cidr subnet vip. ingress_first_subnet s = Inr cidr \<and> IPNetwork L cidr = Inr subnet \<and>
           str_at L (list_net subnet) (ingress_vip_offset offs) = Inr vip \<and>
           bgp_field s' ''ingress_vip'' = Inr vip \<and>
           bgp_field s' ''public_service_cidr'' = Inr cidr"
    and "vlan_network_entry s' n = vlan_network_entry s n"
    and "k \<noteq> ''ingress_vip'' \<Longrightarrow> k \<noteq> ''public_service_cidr'' \<Longrightarrow> bgp_field s' k = bgp_field s k"
    and "baremetal s' = baremetal s" and "store s' = store s" and "genesis_node s' = genesis_node s"
proof -
  from assms obtain cidr subnet vip s1 cidr' where
    c: "ingress_first_subnet s = Inr cidr" and n: "IPNetwork L cidr = Inr subnet"
    and v: "str_at L (list_net subnet) (ingress_vip_offset offs) = Inr vip"
    and s1: "set_bgp s ''ingress_vip'' vip = Inr s1"
    and c': "ingress_first_subnet s1 = Inr cidr'"
    and s': "set_bgp s1 ''public_service_cidr'' cidr' = Inr s'"
    by (auto simp: bgp_rule_def ebind_eq_Inr Let_def)
  have "ingress_first_subnet s1 = ingress_first_subnet s"
    by (rule ingress_first_subnet_cong) (rule set_bgp_frame(1)[OF s1])
  then have cc: "cidr' = cidr" using c c' by simp
  show "\<exists>cidr subnet vip. ingress_first_subnet s = Inr cidr \<and> IPNetwork L cidr = Inr subnet \<and>
           str_at L (list_net subnet) (ingress_vip_offset offs) = Inr vip \<and>
           bgp_field s' ''ingress_vip'' = Inr vip \<and>
           bgp_field s' ''public_service_cidr'' = Inr cidr"
    using c n v cc by (simp add: set_bgp_frame(2)[OF s'] set_bgp_frame(2)[OF s1])
  show "vlan_network_entry s' n = vlan_network_entry s n"
    by (simp add: set_bgp_frame(1)[OF s'] set_bgp_frame(1)[OF s1])
  show "k \<noteq> ''ingress_vip'' \<Longrightarrow> k \<noteq> ''public_service_cidr'' \<Longrightarrow> bgp_field s' k = bgp_field s k"
    by (simp add: set_bgp_frame(2)[OF s'] set_bgp_frame(2)[OF s1])
  show "baremetal s' = baremetal s" "store s' = store s" "genesis_node s' = genesis_node s"
    by (simp_all add: set_bgp_frame(3-5)[OF s'] set_bgp_frame(3-5)[OF s1])
qed

lemma network_subnet_cong:
  "vlan_network_entry t n = vlan_network_entry s n \<Longrightarrow> network_subnet L t n = network_subnet L s n"
  by (simp add: network_subnet_def)

lemma resolve_network_cong:
  "vlan_network_entry t n = vlan_network_entry s n \<Longrightarrow>
   resolve_network L offs subnet n t = resolve_network L offs subnet n s"
  unfolding resolve_network_def Let_def by (simp only:)

lemma keys_setitem: "fst ` set (dict_setitem d k v) = insert k (fst ` set d)"
  using dom_update[of k v d] by (simp add: dict_setitem_def)

lemma distinct_setitem: "distinct (map fst d) \<Longrightarrow> distinct (map fst (dict_setitem d k v))"
  by (simp add: dict_setitem_def distinct_update)

lemma network_subnets_loop_step:
  assumes "network_subnets_loop L s (a # ks) acc = Inr nsub"
  obtains "a = ''ingress''" "network_subnets_loop L s ks acc = Inr nsub"
  | x where "a \<noteq> ''ingress''" "network_subnet L s a = Inr x"
      "network_subnets_loop L s ks (dict_setitem acc a x) = Inr nsub"
  using assms by (cases "a = ''ingress''") (auto simp: ebind_eq_Inr)

lemma network_subnets_loop_keys:
  "network_subnets_loop L s ks acc = Inr nsub \<Longrightarrow>
   fst ` set nsub = fst ` set acc \<union> {k \<in> set ks. k \<noteq> ''ingress''}"
proof (induction ks arbitrary: acc)
  case Nil then show ?case by simp
next
  case (Cons a ks)
  from Cons.prems show ?case
  proof (cases rule: network_subnets_loop_step)
    case 1
    then show ?thesis using Cons.IH[of acc] by auto
  next
    case (2 x)
    then have "fst ` set nsub = insert a (fst ` set acc) \<union> {k \<in> set ks. k \<noteq> ''ingress''}"
      using Cons.IH[of "dict_setitem acc a x"] by (simp only: keys_setitem)
    then show ?thesis using 2(1) by auto
  qed
qed

lemma network_subnets_loop_distinct:
  "network_subnets_loop L s ks acc = Inr nsub \<Longrightarrow> distinct (map fst acc) \<Longrightarrow>
   distinct (map fst nsub)"
proof (induction ks arbitrary: acc)
  case Nil then show ?case by simp
next
  case (Cons a ks)
  from Cons.prems(1) show ?case
  proof (cases rule: network_subnets_loop_step)
    case 1
    then show ?thesis using Cons.IH[of acc] Cons.prems(2) by simp
  next
    case (2 x)
    then show ?thesis
      using Cons.IH[of "dict_setitem acc a x"] Cons.prems(2) by (simp add: distinct_setitem)
  qed
qed

lemma network_subnets_loop_other:
  "network_subnets_loop L s ks acc = Inr nsub \<Longrightarrow> k \<notin> set ks \<or> k = ''ingress'' \<Longrightarrow>
   dict_getitem nsub k = dict_getitem acc k"
proof (induction ks arbitrary: acc)
  case Nil then show ?case by simp
next
  case (Cons a ks)
  from Cons.prems(1) show ?case
  proof (cases rule: network_subnets_loop_step)
    case 1
    then show ?thesis using Cons.IH[of acc] Cons.prems(2) by auto
  next
    case (2 x)
    then show ?thesis
      using Cons.IH[of "dict_setitem acc a x"] Cons.prems(2)
      by (auto simp: dict_getitem_setitem)
  qed
qed

lemma network_subnets_loop_value:
  "network_subnets_loop L s ks acc = Inr nsub \<Longrightarrow> k \<in> set ks \<Longrightarrow> k \<noteq> ''ingress'' \<Longrightarrow>
   dict_getitem nsub k = network_subnet L s k"
proof (induction ks arbitrary: acc)
  case Nil then show ?case by simp
next
  case (Cons a ks)
  from Cons.prems(1) show ?case
  proof (cases rule: network_subnets_loop_step)
    case 1
    then show ?thesis using Cons.IH[of acc] Cons.prems(2,3) by auto
  next
    case (2 x)
    show ?thesis
    proof (cases "k \<in> set ks")
      case True
      then show ?thesis using Cons.IH[of "dict_setitem acc a x"] 2 Cons.prems(3) by simp
    next
      case False
      then have "k = a" using Cons.prems(2) by simp
      moreover have "k \<notin> set ks \<or> k = ''ingress''" using False by simp
      then have "dict_getitem nsub k = dict_getitem (dict_setitem acc a x) k"
        by (rule network_subnets_loop_other[OF 2(3)])
      ultimately show ?thesis using 2(2) by (simp add: dict_getitem_setitem)
    qed
  qed
qed

lemma alloc_loop_step:
  assumes "alloc_loop L offs nsub (a # ks) s = Inr s'"
  obtains subnet e t where "dict_getitem nsub a = Inr subnet"
    "resolve_network L offs subnet a s = Inr e"
    "set_vlan_network_entry s a (VDict e) = Inr t"
    "alloc_loop L offs nsub ks t = Inr s'"
  using assms by (auto simp: ebind_eq_Inr)

lemma alloc_loop_other:
  "alloc_loop L offs nsub ks s = Inr s' \<Longrightarrow> k \<notin> set ks \<Longrightarrow>
   vlan_network_entry s' k = vlan_network_entry s k"
proof (induction ks arbitrary: s)
  case Nil then show ?case by simp
next
  case (Cons a ks)
  from Cons.prems(1) show ?case
  proof (cases rule: alloc_loop_step)
    case (1 subnet e t)
    have "vlan_network_entry s' k = vlan_network_entry t k"
      using Cons.IH[OF 1(4)] Cons.prems(2) by simp
    then show ?thesis
      using set_vlan_network_entry_frame(1)[OF 1(3), of k] Cons.prems(2) by simp
  qed
qed

lemma alloc_loop_frame:
  "alloc_loop L offs nsub ks s = Inr s' \<Longrightarrow>
   bgp_field s' f = bgp_field s f \<and> baremetal s' = baremetal s \<and> store s' = store s \<and>
   genesis_node s' = genesis_node s"
proof (induction ks arbitrary: s)
  case Nil then show ?case by simp
next
  case (Cons a ks)
  from Cons.prems(1) show ?case
  proof (cases rule: alloc_loop_step)
    case (1 subnet e t)
    show ?thesis
      using Cons.IH[OF 1(4)] set_vlan_network_entry_frame(2-5)[OF 1(3)] by simp
  qed
qed

lemma alloc_loop_entry:
  "alloc_loop L offs nsub ks s = Inr s' \<Longrightarrow> distinct ks \<Longrightarrow> k \<in> set ks \<Longrightarrow>
   \<exists>subnet e. dict_getitem nsub k = Inr subnet \<and>
      resolve_network L offs subnet k s = Inr e \<and>
      vlan_network_entry s' k = Inr (VDict e)"
proof (induction ks arbitrary: s)
  case Nil then show ?case by simp
next
  case (Cons a ks)
  from Cons.prems(1) show ?case
  proof (cases rule: alloc_loop_step)
    case (1 subnet e t)
    show ?thesis
    proof (cases "k = a")
      case True
      then have "a \<notin> set ks" using Cons.prems(2) by simp
      then have "vlan_network_entry s' a = vlan_network_entry t a"
        by (rule alloc_loop_other[OF 1(4)])
      then have "vlan_network_entry s' a = Inr (VDict e)"
        using set_vlan_network_entry_frame(1)[OF 1(3), of a] by simp
      then show ?thesis using True 1(1,2) by simp
    next
      case False
      then have k: "k \<in> set ks" "distinct ks" using Cons.prems(2,3) by simp_all
      from Cons.IH[OF 1(4) k(2) k(1)] obtain subnet' e' where
        r: "dict_getitem nsub k = Inr subnet'" "resolve_network L offs subnet' k t = Inr e'"
           "vlan_network_entry s' k = Inr (VDict e')"
        by blast
      have "vlan_network_entry t k = vlan_network_entry s k"
        using set_vlan_network_entry_frame(1)[OF 1(3), of k] False by simp
      then have "resolve_network L offs subnet' k t = resolve_network L offs subnet' k s"
        by (rule resolve_network_cong)
      then show ?thesis using r by simp
    qed
  qed
qed

lemma apply_rule_steps:
  assumes "apply_rule_ip_alloc_offset L rule_data s = Inr s'"
  obtains offs s1 d nsub where "collect_rules rule_data = Inr offs"
    "bgp_rule L offs s = Inr s1"
    "getitem (network s1) ''vlan_network_data'' = Inr (VDict d)"
    "network_subnets_loop L s1 (map fst d) [] = Inr nsub"
    "alloc_loop L offs nsub (map fst nsub) s1 = Inr s'"
proof -
  from assms obtain offs s1 nsub where a: "collect_rules rule_data = Inr offs"
    "bgp_rule L offs s = Inr s1" "get_network_subnets L s1 = Inr nsub"
    "alloc_loop L offs nsub (map fst nsub) s1 = Inr s'"
    by (auto simp: apply_rule_ip_alloc_offset_def ebind_eq_Inr)
  from a(3) obtain vnd where v: "getitem (network s1) ''vlan_network_data'' = Inr vnd"
    "(case vnd of VDict d \<Rightarrow> network_subnets_loop L s1 (map fst d) [] | _ \<Rightarrow> Inl TypeError) = Inr nsub"
    by (auto simp: get_network_subnets_def ebind_eq_Inr)
  then obtain d where "vnd = VDict d" "network_subnets_loop L s1 (map fst d) [] = Inr nsub"
    by (cases vnd) simp_all
  with a v that show thesis by simp
qed

lemma apply_rule_entry:
  assumes run: "apply_rule_ip_alloc_offset L rule_data s = Inr s'"
    and ent: "vlan_network_entry s net_type = Inr ent"
    and ni: "net_type \<noteq> ''ingress''"
  shows "\<exists>offs subnet e. collect_rules rule_data = Inr offs \<and>
           network_subnet L s net_type = Inr subnet \<and>
           resolve_network L offs subnet net_type s = Inr e \<and>
           vlan_network_entry s' net_type = Inr (VDict e)"
proof -
  from run obtain offs s1 d nsub where a: "collect_rules rule_data = Inr offs"
    "bgp_rule L offs s = Inr s1"
    "getitem (network s1) ''vlan_network_data'' = Inr (VDict d)"
    "network_subnets_loop L s1 (map fst d) [] = Inr nsub"
    "alloc_loop L offs nsub (map fst nsub) s1 = Inr s'"
    by (rule apply_rule_steps)
  have e1: "vlan_network_entry s1 net_type = vlan_network_entry s net_type"
    by (rule bgp_rule_result(2)[OF a(2)])
  then have "getitem (VDict d) net_type = Inr ent"
    using ent a(3) by (simp add: vlan_network_entry_def)
  then have "map_of d net_type = Some ent" by (simp add: dict_getitem_eq_Inr)
  then have ind: "net_type \<in> set (map fst d)" by (auto dest: map_of_SomeD intro: rev_image_eqI)
  have "fst ` set nsub = fst ` set ([]::(string \<times> ipnetwork) list) \<union> {k \<in> set (map fst d). k \<noteq> ''ingress''}"
    by (rule network_subnets_loop_keys[OF a(4)])
  then have kin: "net_type \<in> set (map fst nsub)" using ind ni by simp
  have dist: "distinct (map fst nsub)"
    by (rule network_subnets_loop_distinct[OF a(4)]) simp
  have val: "dict_getitem nsub net_type = network_subnet L s net_type"
    using network_subnets_loop_value[OF a(4) ind ni] network_subnet_cong[OF e1, of L] by simp
  from alloc_loop_entry[OF a(5) dist kin] obtain subnet e where
    r: "dict_getitem nsub net_type = Inr subnet"
       "resolve_network L offs subnet net_type s1 = Inr e"
       "vlan_network_entry s' net_type = Inr (VDict e)"
    by blast
  have "resolve_network L offs subnet net_type s1 = resolve_network L offs subnet net_type s"
    using e1 by (rule resolve_network_cong)
  then show ?thesis using a(1) r val by simp
qed

lemma apply_rule_entry_unchanged:
  assumes run: "apply_rule_ip_alloc_offset L rule_data s = Inr s'"
    and ni: "net_type = ''ingress'' \<or> isl (vlan_network_entry s net_type)"
  shows "vlan_network_entry s' net_type = vlan_network_entry s net_type"
proof -
  from run obtain offs s1 d nsub where a: "collect_rules rule_data = Inr offs"
    "bgp_rule L offs s = Inr s1"
    "getitem (network s1) ''vlan_network_data'' = Inr (VDict d)"
    "network_subnets_loop L s1 (map fst d) [] = Inr nsub"
    "alloc_loop L offs nsub (map fst nsub) s1 = Inr s'"
    by (rule apply_rule_steps)
  have e1: "vlan_network_entry s1 net_type = vlan_network_entry s net_type"
    by (rule bgp_rule_result(2)[OF a(2)])
  have keys: "fst ` set nsub = fst ` set ([]::(string \<times> ipnetwork) list) \<union> {k \<in> set (map fst d). k \<noteq> ''ingress''}"
    by (rule network_subnets_loop_keys[OF a(4)])
  have "net_type \<notin> set (map fst nsub)"
  proof (cases "net_type = ''ingress''")
    case True
    then show ?thesis using keys by simp
  next
    case False
    then have "isl (vlan_network_entry s1 net_type)" using ni e1 by simp
    then have "map_of d net_type = None"
      using a(3) by (simp add: vlan_network_entry_def dict_getitem_def split: option.splits)
    then have "net_type \<notin> fst ` set d" by (simp add: map_of_eq_None_iff)
    then show ?thesis using keys by simp
  qed
  then have "vlan_network_entry s' net_type = vlan_network_entry s1 net_type"
    by (rule alloc_loop_other[OF a(5)])
  then show ?thesis using e1 by simp
qed

lemma apply_rule_bgp:
  assumes run: "apply_rule_ip_alloc_offset L rule_data s = Inr s'"
  shows "\<exists>offs cidr subnet vip. collect_rules rule_data = Inr offs \<and>
           ingress_first_subnet s = Inr cidr \<and> IPNetwork L cidr = Inr subnet \<and>
           str_at L (list_net subnet) (ingress_vip_offset offs) = Inr vip \<and>
           bgp_field s' ''ingress_vip'' = Inr vip \<and>
           bgp_field s' ''public_service_cidr'' = Inr cidr"
proof -
  from run obtain offs s1 d nsub where a: "collect_rules rule_data = Inr offs"
    "bgp_rule L offs s = Inr s1"
    "getitem (network s1) ''vlan_network_data'' = Inr (VDict d)"
    "network_subnets_loop L s1 (map fst d) [] = Inr nsub"
    "alloc_loop L offs nsub (map fst nsub) s1 = Inr s'"
    by (rule apply_rule_steps)
  from bgp_rule_result(1)[OF a(2)] alloc_loop_frame[OF a(5)] a(1)
  show ?thesis by simp
qed

lemma length_list_net [simp]: "length (list_net n) = net_size n"
  by (simp add: list_net_def)

lemma list_getitem_list_net:
  "0 \<le> k \<Longrightarrow> k < int (net_size n) \<Longrightarrow>
   list_getitem (list_net n) k = Inr (IPAddress (net_version n) (net_first n + nat k))"
proof -
  assume k: "0 \<le> k" "k < int (net_size n)"
  then have "nat k < net_size n" by linarith
  then have "list_net n ! nat k = IPAddress (net_version n) (net_first n + nat k)"
    by (simp add: list_net_def)
  then show ?thesis using k by (simp add: list_getitem_def Let_def)
qed

lemma str_at_list_net:
  "0 \<le> k \<Longrightarrow> k < int (net_size n) \<Longrightarrow>
   str_at L (list_net n) (VInt k) =
     Inr (VStr (str_ip L (IPAddress (net_version n) (net_first n + nat k))))"
  by (simp add: str_at_def ips_getitem_def list_getitem_list_net)

lemma str_at_int_list_net:
  "0 \<le> k \<Longrightarrow> k < int (net_size n) \<Longrightarrow>
   str_at_int L (list_net n) k =
     Inr (VStr (str_ip L (IPAddress (net_version n) (net_first n + nat k))))"
  by (simp add: str_at_int_def list_getitem_list_net)

lemmas ipv4_eval = ipv4_def ipv4_IPNetwork_def parse_nat_def digit_val_def ipv4_str_def
  str_nat.simps str_net_def net_size_def net_width_def net_first_def

lemmas engine_eval = apply_rule_ip_alloc_offset_def collect_rules_def bgp_rule_def
  ingress_first_subnet_def vlan_network_entry_def set_bgp_def get_network_subnets_def
  network_subnet_def resolve_network_def set_vlan_network_entry_def dict_getitem_def
  dict_setitem_def add_one_def ip_offset_for_def Let_def

lemma example_run:
  "apply_rule_ip_alloc_offset ipv4 example_rule_data example_engine =
     Inr (example_engine\<lparr>network := example_network'\<rparr>)"
  by (simp add: example_engine_def example_network_def example_rule_data_def
      example_network'_def engine_eval ipv4_eval str_at_list_net str_at_int_list_net
      list_getitem_def)

lemma last_filter_keep: "ys \<noteq> [] \<Longrightarrow> Q (last ys) \<Longrightarrow> last (filter Q ys) = last ys"
  by (induction ys rule: rev_induct) simp_all

lemma filter_last_addr:
  assumes "filter P ps \<noteq> []"
  shows "filter (\<lambda>p. P p \<and> snd p = snd (last (filter P ps))) ps \<noteq> []"
    and "last (filter (\<lambda>p. P p \<and> snd p = snd (last (filter P ps))) ps) = last (filter P ps)"
proof -
  let ?a = "snd (last (filter P ps))"
  have eq: "filter (\<lambda>p. P p \<and> snd p = ?a) ps = filter (\<lambda>p. snd p = ?a) (filter P ps)"
    by (simp add: conj_commute)
  have l: "last (filter (\<lambda>p. snd p = ?a) (filter P ps)) = last (filter P ps)"
    using assms by (intro last_filter_keep) simp_all
  have "last (filter P ps) \<in> set (filter P ps)"
    using assms by (rule last_in_set)
  then have "last (filter P ps) \<in> set (filter (\<lambda>p. snd p = ?a) (filter P ps))"
    by simp
  then have "filter (\<lambda>p. snd p = ?a) (filter P ps) \<noteq> []"
    by (metis empty_iff empty_set)
  then show "filter (\<lambda>p. P p \<and> snd p = ?a) ps \<noteq> []" unfolding eq .
  show "last (filter (\<lambda>p. P p \<and> snd p = ?a) ps) = last (filter P ps)"
    unfolding eq by (rule l)
qed

lemmas genesis_eval = get_genesis_node_details_def genesis_host_def dict_getitem_def
  dict_setitem_def wf_baremetal_def all_typed_def all_hosts_def genesis_hosts_def
  is_genesis_def host_entry_def

text \<open>
  Claim C6. The genesis locator records the last host, in iteration order over the racks
  and over the hosts of each rack, whose type is \<open>genesis\<close>, and that host's entry gets
  the name field equal to its key; no earlier match stops the scan. On the block with
  hosts h1 (worker), h2 (genesis), h3 (genesis) the result is h3. When no host has the
  type \<open>genesis\<close> the state is returned as it was, so the genesis node stays absent, and
  the call does not fail. A block is well formed when its rack names and the host names
  of each rack are distinct (as the keys of a dictionary are) and every host has a
  \<open>type\<close>.
\<close>

theorem genesis_last_match_wins:
  "(wf_baremetal s \<and> all_typed s \<longrightarrow> \<not> isl (get_genesis_node_details s)) \<and>
   (wf_baremetal s \<and> get_genesis_node_details s = Inr s' \<and> genesis_hosts s \<noteq> [] \<longrightarrow>
      genesis_node s' = Some (snd (last (genesis_hosts s))) \<and>
      store s' (snd (last (genesis_hosts s))) =
        dict_setitem (store s (snd (last (genesis_hosts s)))) ''name''
          (VStr (fst (last (genesis_hosts s))))) \<and>
   (genesis_hosts example_engine = [(''h2'', 1), (''h3'', 2)] \<and>
    \<not> isl (get_genesis_node_details example_engine) \<and>
    genesis_node (projr (get_genesis_node_details example_engine)) = Some 2 \<and>
    store (projr (get_genesis_node_details example_engine)) 2 =
      [(''type'', VStr ''genesis''), (''name'', VStr ''h3'')]) \<and>
   (wf_baremetal s \<and> all_typed s \<and> genesis_hosts s = [] \<longrightarrow>
      get_genesis_node_details s = Inr s)"
proof (intro conjI impI)
  assume a: "wf_baremetal s \<and> all_typed s"
  then have "\<exists>s'. scan_hosts (all_hosts s) s = Inr s'"
    by (intro scan_hosts_total) (simp add: all_typed_def)
  then show "\<not> isl (get_genesis_node_details s)"
    using a by (auto simp: get_genesis_scan)
next
  assume a: "wf_baremetal s \<and> get_genesis_node_details s = Inr s' \<and> genesis_hosts s \<noteq> []"
  then have "get_genesis_node_details s = scan_hosts (all_hosts s) s"
    by (intro get_genesis_scan) simp
  then have sc: "scan_hosts (all_hosts s) s = Inr s'" using a by simp
  have ne: "filter (\<lambda>p. is_genesis s (snd p)) (all_hosts s) \<noteq> []"
    using a by (simp add: genesis_hosts_def)
  show "genesis_node s' = Some (snd (last (genesis_hosts s)))"
    using scan_hosts_genesis_node[OF sc] ne by (simp add: genesis_hosts_def)
  show "store s' (snd (last (genesis_hosts s))) =
        dict_setitem (store s (snd (last (genesis_hosts s)))) ''name''
          (VStr (fst (last (genesis_hosts s))))"
    using scan_hosts_store[OF sc, of "snd (last (genesis_hosts s))"]
      filter_last_addr[OF ne]
    by (simp add: genesis_hosts_def)
next
  show "genesis_hosts example_engine = [(''h2'', 1), (''h3'', 2)]"
    by (simp add: example_engine_def example_store_def genesis_eval)
  show "\<not> isl (get_genesis_node_details example_engine)"
    by (simp add: example_engine_def example_store_def genesis_eval)
  show "genesis_node (projr (get_genesis_node_details example_engine)) = Some 2"
    by (simp add: example_engine_def example_store_def genesis_eval)
  show "store (projr (get_genesis_node_details example_engine)) 2 =
      [(''type'', VStr ''genesis''), (''name'', VStr ''h3'')]"
    by (simp add: example_engine_def example_store_def genesis_eval)
next
  assume a: "wf_baremetal s \<and> all_typed s \<and> genesis_hosts s = []"
  then have "list_all (\<lambda>p. \<not> isl (dict_getitem (store s (snd p)) ''type'') \<and>
      \<not> is_genesis s (snd p)) (all_hosts s)"
    by (auto simp: all_typed_def genesis_hosts_def list_all_iff filter_empty_conv)
  then have "scan_hosts (all_hosts s) s = Inr s" by (rule scan_hosts_no_match)
  then show "get_genesis_node_details s = Inr s" using a by (simp add: get_genesis_scan)
qed

theorem genesis_last_match_wins_witness:
  "wf_baremetal example_engine \<and> all_typed example_engine \<and>
   genesis_hosts example_engine \<noteq> [] \<and>
   \<not> isl (get_genesis_node_details example_engine) \<and>
   genesis_node (projr (get_genesis_node_details example_engine)) = Some 2 \<and>
   wf_baremetal no_genesis_engine \<and> all_typed no_genesis_engine \<and>
   genesis_hosts no_genesis_engine = [] \<and>
   get_genesis_node_details no_genesis_engine = Inr no_genesis_engine \<and>
   genesis_node no_genesis_engine = None"
proof -
  have w: "wf_baremetal example_engine" "all_typed example_engine"
    "genesis_hosts example_engine \<noteq> []"
    by (simp_all add: example_engine_def example_store_def genesis_eval)
  have n: "wf_baremetal no_genesis_engine" "all_typed no_genesis_engine"
    "genesis_hosts no_genesis_engine = []" "genesis_node no_genesis_engine = None"
    by (simp_all add: no_genesis_engine_def genesis_eval)
  have r: "\<not> isl (get_genesis_node_details example_engine)"
    using genesis_last_match_wins[of example_engine] w by blast
  then have e: "get_genesis_node_details example_engine =
      Inr (projr (get_genesis_node_details example_engine))" by simp
  show ?thesis
    using genesis_last_match_wins[of example_engine
        "projr (get_genesis_node_details example_engine)"]
      genesis_last_match_wins[of no_genesis_engine] w n e
    by simp
qed

text \<open>
  Claim C2, as stated: the genesis node is a copy, and the host entry inside the
  baremetal block is unchanged and gains no name field. On a block with the single host
  h1 of type \<open>genesis\<close> the entry of h1 read through the block after the call has the name
  field that it did not have before: the genesis node is that entry itself.
\<close>

theorem genesis_node_copy_counterexample:
  "\<not> isl (get_genesis_node_details single_genesis_engine) \<and>
   host_entry single_genesis_engine ''rack1'' ''h1'' =
     Inr [(''type'', VStr ''genesis''), (''oob'', VStr ''10.0.2.9'')] \<and>
   host_entry (projr (get_genesis_node_details single_genesis_engine)) ''rack1'' ''h1'' =
     Inr [(''type'', VStr ''genesis''), (''oob'', VStr ''10.0.2.9''), (''name'', VStr ''h1'')] \<and>
   genesis_node (projr (get_genesis_node_details single_genesis_engine)) = Some 7"
  by (simp add: single_genesis_engine_def genesis_eval)

text \<open>
  Claim C2, amended. The genesis node is the matching host's attribute mapping itself,
  not a copy: the call leaves the racks and their hosts as they are, sets the name field
  in the attribute mapping of every host whose type is \<open>genesis\<close> (to the host's key; to
  the last such key when several keys hold the same mapping), changes no other field of
  any mapping and no mapping of another host, and the genesis node is the mapping of the
  last such host.
\<close>

theorem genesis_node_is_host_entry:
  assumes "wf_baremetal s" and "get_genesis_node_details s = Inr s'"
  shows "baremetal s' = baremetal s \<and>
         (genesis_hosts s \<noteq> [] \<longrightarrow> genesis_node s' = Some (snd (last (genesis_hosts s)))) \<and>
         store s' a =
           (if filter (\<lambda>p. snd p = a) (genesis_hosts s) = [] then store s a
            else dict_setitem (store s a) ''name''
                   (VStr (fst (last (filter (\<lambda>p. snd p = a) (genesis_hosts s)))))) \<and>
         (k \<noteq> ''name'' \<longrightarrow> dict_getitem (store s' a) k = dict_getitem (store s a) k)"
proof -
  have "get_genesis_node_details s = scan_hosts (all_hosts s) s"
    using assms(1) by (rule get_genesis_scan)
  then have sc: "scan_hosts (all_hosts s) s = Inr s'" using assms(2) by simp
  have eq: "filter (\<lambda>p. is_genesis s (snd p) \<and> snd p = a) (all_hosts s) =
            filter (\<lambda>p. snd p = a) (genesis_hosts s)"
    by (simp add: genesis_hosts_def conj_commute)
  have 1: "baremetal s' = baremetal s" using scan_hosts_baremetal[OF sc] by simp
  have 2: "genesis_hosts s \<noteq> [] \<longrightarrow> genesis_node s' = Some (snd (last (genesis_hosts s)))"
    using scan_hosts_genesis_node[OF sc] by (simp add: genesis_hosts_def)
  have 3: "store s' a =
           (if filter (\<lambda>p. snd p = a) (genesis_hosts s) = [] then store s a
            else dict_setitem (store s a) ''name''
                   (VStr (fst (last (filter (\<lambda>p. snd p = a) (genesis_hosts s))))))"
    using scan_hosts_store[OF sc, of a] unfolding eq .
  have 4: "k \<noteq> ''name'' \<longrightarrow> dict_getitem (store s' a) k = dict_getitem (store s a) k"
    using scan_hosts_type[OF sc] by simp
  from 1 2 3 4 show ?thesis by blast
qed

theorem genesis_node_is_host_entry_witness:
  "wf_baremetal single_genesis_engine \<and>
   \<not> isl (get_genesis_node_details single_genesis_engine) \<and>
   genesis_hosts single_genesis_engine = [(''h1'', 7)] \<and>
   genesis_node (projr (get_genesis_node_details single_genesis_engine)) = Some 7 \<and>
   store (projr (get_genesis_node_details single_genesis_engine)) 7 =
     [(''type'', VStr ''genesis''), (''oob'', VStr ''10.0.2.9''), (''name'', VStr ''h1'')] \<and>
   dict_getitem (store (projr (get_genesis_node_details single_genesis_engine)) 7) ''oob'' =
     Inr (VStr ''10.0.2.9'')"
proof -
  have w: "wf_baremetal single_genesis_engine"
    "genesis_hosts single_genesis_engine = [(''h1'', 7)]"
    "store single_genesis_engine 7 = [(''type'', VStr ''genesis''), (''oob'', VStr ''10.0.2.9'')]"
    by (simp_all add: single_genesis_engine_def genesis_eval)
  have r: "\<not> isl (get_genesis_node_details single_genesis_engine)"
    by (simp add: single_genesis_engine_def genesis_eval)
  then have e: "get_genesis_node_details single_genesis_engine =
      Inr (projr (get_genesis_node_details single_genesis_engine))" by simp
  show ?thesis
    using genesis_node_is_host_entry[OF w(1) e, of 7 "''oob''"] w r
    by (simp add: dict_setitem_def dict_getitem_def)
qed

lemma has_field_Inr [simp]: "has_field e k (Inr v) = (map_of e k = Some v)"
  by (simp add: has_field_def)

lemma ebind_InrE:
  assumes "ebind m f = Inr y"
  obtains x where "m = Inr x" "f x = Inr y"
  using assms by (auto simp: ebind_eq_Inr)

lemma net_type_cases:
  obtains "net_type = ''pxe''" | "net_type = ''oob''" | "net_type = ''oam''"
  | "net_type \<noteq> ''pxe''" "net_type \<noteq> ''oob''" "net_type \<noteq> ''oam''"
  by blast

lemma keys_setitem_list:
  "map fst (dict_setitem d k v) = (if k \<in> set (map fst d) then map fst d else map fst d @ [k])"
  by (simp add: dict_setitem_def update_keys)

lemma resolve_network_general:
  assumes "resolve_network L offs subnet net_type s = Inr e"
  shows "has_field e ''network'' (Inr (VStr (str_net L subnet))) \<and>
         has_field e ''gateway'' (str_at L (list_net subnet) (gateway_ip_offset offs)) \<and>
         has_field e ''reserved_start'' (str_at L (list_net subnet) (VInt 1)) \<and>
         has_field e ''reserved_end'' (str_at L (list_net subnet) (ip_offset_for offs net_type)) \<and>
         has_field e ''static_start''
           (ebind (add_one (ip_offset_for offs net_type)) (str_at L (list_net subnet)))"
proof (cases net_type rule: net_type_cases)
  case 1
  from assms show ?thesis unfolding resolve_network_def Let_def 1
    by (simp, (elim ebind_InrE)?, clarsimp?, (elim ebind_InrE)?,
        (clarsimp simp: map_of_setitem)?)
next
  case 2
  from assms show ?thesis unfolding resolve_network_def Let_def 2
    by (simp, (elim ebind_InrE)?, clarsimp?, (elim ebind_InrE)?,
        (clarsimp simp: map_of_setitem)?)
next
  case 3
  from assms show ?thesis unfolding resolve_network_def Let_def 3
    by (simp, (elim ebind_InrE)?, clarsimp?, (elim ebind_InrE)?,
        (clarsimp simp: map_of_setitem)?)
next
  case 4
  from assms 4 show ?thesis unfolding resolve_network_def Let_def
    by (simp, (elim ebind_InrE)?, clarsimp?, (elim ebind_InrE)?,
        (clarsimp simp: map_of_setitem)?)
qed

lemma resolve_network_static_end:
  assumes "resolve_network L offs subnet net_type s = Inr e"
  shows "net_type \<noteq> ''pxe'' \<longrightarrow>
         has_field e ''static_end'' (str_at L (list_net subnet) (static_ip_end_offset offs))"
proof (cases net_type rule: net_type_cases)
  case 1
  from assms show ?thesis unfolding resolve_network_def Let_def 1
    by (simp, (elim ebind_InrE)?, clarsimp?, (elim ebind_InrE)?,
        (clarsimp simp: map_of_setitem)?)
next
  case 2
  from assms show ?thesis unfolding resolve_network_def Let_def 2
    by (simp, (elim ebind_InrE)?, clarsimp?, (elim ebind_InrE)?,
        (clarsimp simp: map_of_setitem)?)
next
  case 3
  from assms show ?thesis unfolding resolve_network_def Let_def 3
    by (simp, (elim ebind_InrE)?, clarsimp?, (elim ebind_InrE)?,
        (clarsimp simp: map_of_setitem)?)
next
  case 4
  from assms 4 show ?thesis unfolding resolve_network_def Let_def
    by (simp, (elim ebind_InrE)?, clarsimp?, (elim ebind_InrE)?,
        (clarsimp simp: map_of_setitem)?)
qed

lemma resolve_network_pxe:
  assumes "resolve_network L offs subnet net_type s = Inr e"
  shows "net_type = ''pxe'' \<longrightarrow>
         has_field e ''static_end''
           (str_at_int L (list_net subnet) (int (length (list_net subnet)) div 2 - 1)) \<and>
         has_field e ''dhcp_start''
           (str_at_int L (list_net subnet) (int (length (list_net subnet)) div 2)) \<and>
         has_field e ''dhcp_end'' (str_at L (list_net subnet) (dhcp_ip_end_offset offs))"
proof (cases net_type rule: net_type_cases)
  case 1
  from assms show ?thesis unfolding resolve_network_def Let_def 1
    by (simp, (elim ebind_InrE)?, clarsimp?, (elim ebind_InrE)?,
        (clarsimp simp: map_of_setitem)?)
next
  case 2
  from assms show ?thesis unfolding resolve_network_def Let_def 2
    by (simp, (elim ebind_InrE)?, clarsimp?, (elim ebind_InrE)?,
        (clarsimp simp: map_of_setitem)?)
next
  case 3
  from assms show ?thesis unfolding resolve_network_def Let_def 3
    by (simp, (elim ebind_InrE)?, clarsimp?, (elim ebind_InrE)?,
        (clarsimp simp: map_of_setitem)?)
next
  case 4
  from assms 4 show ?thesis unfolding resolve_network_def Let_def
    by (simp, (elim ebind_InrE)?, clarsimp?, (elim ebind_InrE)?,
        (clarsimp simp: map_of_setitem)?)
qed

lemma resolve_network_routes:
  assumes "resolve_network L offs subnet net_type s = Inr e"
  shows "map_of e ''routes'' =
           Some (VList (if net_type = ''oam'' then [VStr ''0.0.0.0/0''] else []))"
proof (cases net_type rule: net_type_cases)
  case 1
  from assms show ?thesis unfolding resolve_network_def Let_def 1
    by (simp, (elim ebind_InrE)?, clarsimp?, (elim ebind_InrE)?,
        (clarsimp simp: map_of_setitem)?)
next
  case 2
  from assms show ?thesis unfolding resolve_network_def Let_def 2
    by (simp, (elim ebind_InrE)?, clarsimp?, (elim ebind_InrE)?,
        (clarsimp simp: map_of_setitem)?)
next
  case 3
  from assms show ?thesis unfolding resolve_network_def Let_def 3
    by (simp, (elim ebind_InrE)?, clarsimp?, (elim ebind_InrE)?,
        (clarsimp simp: map_of_setitem)?)
next
  case 4
  from assms 4 show ?thesis unfolding resolve_network_def Let_def
    by (simp, (elim ebind_InrE)?, clarsimp?, (elim ebind_InrE)?,
        (clarsimp simp: map_of_setitem)?)
qed

lemma resolve_network_vlan:
  assumes "resolve_network L offs subnet net_type s = Inr e"
  shows "(net_type = ''oob'' \<longrightarrow> map_of e ''vlan'' = None) \<and>
         (net_type \<noteq> ''oob'' \<longrightarrow>
            has_field e ''vlan''
              (ebind (vlan_network_entry s net_type) (\<lambda>ent. getitem ent ''vlan'')))"
proof (cases net_type rule: net_type_cases)
  case 1
  from assms show ?thesis unfolding resolve_network_def Let_def 1
    by (simp, (elim ebind_InrE)?, clarsimp?, (elim ebind_InrE)?,
        (clarsimp simp: map_of_setitem)?)
next
  case 2
  from assms show ?thesis unfolding resolve_network_def Let_def 2
    by (simp, (elim ebind_InrE)?, clarsimp?, (elim ebind_InrE)?,
        (clarsimp simp: map_of_setitem)?)
next
  case 3
  from assms show ?thesis unfolding resolve_network_def Let_def 3
    by (simp, (elim ebind_InrE)?, clarsimp?, (elim ebind_InrE)?,
        (clarsimp simp: map_of_setitem)?)
next
  case 4
  from assms 4 show ?thesis unfolding resolve_network_def Let_def
    by (simp, (elim ebind_InrE)?, clarsimp?, (elim ebind_InrE)?,
        (clarsimp simp: map_of_setitem)?)
qed

lemma resolve_network_keys:
  assumes "resolve_network L offs subnet net_type s = Inr e"
  shows "map fst e = entry_keys net_type"
proof (cases net_type rule: net_type_cases)
  case 1
  from assms show ?thesis unfolding resolve_network_def Let_def 1
    by (simp, (elim ebind_InrE)?, clarsimp?, (elim ebind_InrE)?,
        (clarsimp simp: map_of_setitem keys_setitem_list entry_keys_def)?)
next
  case 2
  from assms show ?thesis unfolding resolve_network_def Let_def 2
    by (simp, (elim ebind_InrE)?, clarsimp?, (elim ebind_InrE)?,
        (clarsimp simp: map_of_setitem keys_setitem_list entry_keys_def)?)
next
  case 3
  from assms show ?thesis unfolding resolve_network_def Let_def 3
    by (simp, (elim ebind_InrE)?, clarsimp?, (elim ebind_InrE)?,
        (clarsimp simp: map_of_setitem keys_setitem_list entry_keys_def)?)
next
  case 4
  from assms 4 show ?thesis unfolding resolve_network_def Let_def
    by (simp, (elim ebind_InrE)?, clarsimp?, (elim ebind_InrE)?,
        (clarsimp simp: map_of_setitem keys_setitem_list entry_keys_def)?)
qed

lemma entry_field_has_field:
  "vlan_network_entry s n = Inr (VDict e) \<Longrightarrow> has_field e k r \<Longrightarrow>
   entry_field s n k = r \<and> \<not> isl r"
  by (cases r) (simp_all add: entry_field_def has_field_def dict_getitem_def)

lemma entry_field_absent:
  "vlan_network_entry s n = Inr (VDict e) \<Longrightarrow> map_of e k = None \<Longrightarrow>
   entry_field s n k = Inl KeyError"
  by (simp add: entry_field_def dict_getitem_def)

lemma network_subnet_entry:
  assumes "network_subnet L s n = Inr subnet"
  obtains ent where "vlan_network_entry s n = Inr ent"
  using assms unfolding network_subnet_def by (elim ebind_InrE)

lemma apply_rule_resolved:
  assumes "apply_rule_ip_alloc_offset L rule_data s = Inr s'"
    and "collect_rules rule_data = Inr offs"
    and "network_subnet L s net_type = Inr subnet"
    and "net_type \<noteq> ''ingress''"
  obtains e where "resolve_network L offs subnet net_type s = Inr e"
    "vlan_network_entry s' net_type = Inr (VDict e)"
proof -
  from assms(3) obtain ent where "vlan_network_entry s net_type = Inr ent"
    by (rule network_subnet_entry)
  from apply_rule_entry[OF assms(1) this assms(4)] assms(2,3) that show thesis
    by auto
qed

lemma example_run':
  "apply_rule_ip_alloc_offset ipv4 example_rule_data example_engine = Inr example_engine'"
  by (simp add: example_run example_engine'_def)

lemma example_collect: "collect_rules example_rule_data = Inr example_offsets"
  by (simp add: collect_rules_def example_rule_data_def example_offsets_def dict_getitem_def)

lemma example_subnet_storage:
  "network_subnet ipv4 example_engine ''storage'' =
     Inr \<lparr>net_version = 4, net_value = 3232238080, net_prefixlen = 24\<rparr>"
  by (simp add: network_subnet_def vlan_network_entry_def example_engine_def
      example_network_def dict_getitem_def ipv4_eval)

lemma example_storage_size:
  "net_size \<lparr>net_version = 4, net_value = 3232238080, net_prefixlen = 24\<rparr> = 256"
  "net_first \<lparr>net_version = 4, net_value = 3232238080, net_prefixlen = 24\<rparr> = 3232238080"
  by (simp_all add: net_size_def net_width_def net_first_def)

text \<open>
  Claim C1. For a network type other than \<open>ingress\<close> and \<open>pxe\<close> that the offset rule
  resolves, with \<open>ips\<close> the address list of its subnet: gateway is \<open>ips[offsets.gateway]\<close>,
  reserved_start is \<open>ips[1]\<close>, reserved_end is \<open>ips[ip_offset]\<close>, static_start is
  \<open>ips[ip_offset + 1]\<close> and static_end is \<open>ips[offsets.static_ip_end]\<close>, each as the
  text of the address, where \<open>ip_offset\<close> is \<open>offsets.oob\<close> for \<open>oob\<close> and
  \<open>offsets.default\<close> otherwise.
\<close>

theorem ip_alloc_offset_general_fields:
  assumes "apply_rule_ip_alloc_offset L rule_data s = Inr s'"
    and "collect_rules rule_data = Inr offs"
    and "network_subnet L s net_type = Inr subnet"
    and "net_type \<noteq> ''ingress''" and "net_type \<noteq> ''pxe''"
  shows "ip_offset_for offs net_type =
           (if net_type = ''oob'' then oob_ip_offset offs else default_ip_offset offs) \<and>
         entry_field s' net_type ''gateway'' =
           str_at L (list_net subnet) (gateway_ip_offset offs) \<and>
         entry_field s' net_type ''reserved_start'' = str_at L (list_net subnet) (VInt 1) \<and>
         entry_field s' net_type ''reserved_end'' =
           str_at L (list_net subnet) (ip_offset_for offs net_type) \<and>
         entry_field s' net_type ''static_start'' =
           ebind (add_one (ip_offset_for offs net_type)) (str_at L (list_net subnet)) \<and>
         entry_field s' net_type ''static_end'' =
           str_at L (list_net subnet) (static_ip_end_offset offs) \<and>
         \<not> isl (entry_field s' net_type ''gateway'') \<and>
         \<not> isl (entry_field s' net_type ''reserved_start'') \<and>
         \<not> isl (entry_field s' net_type ''reserved_end'') \<and>
         \<not> isl (entry_field s' net_type ''static_start'') \<and>
         \<not> isl (entry_field s' net_type ''static_end'')"
proof -
  from assms(1-4) obtain e where r: "resolve_network L offs subnet net_type s = Inr e"
    and e: "vlan_network_entry s' net_type = Inr (VDict e)"
    by (rule apply_rule_resolved)
  note g = resolve_network_general[OF r]
  have se: "has_field e ''static_end'' (str_at L (list_net subnet) (static_ip_end_offset offs))"
    using resolve_network_static_end[OF r] assms(5) by simp
  have 1: "entry_field s' net_type ''gateway'' =
        str_at L (list_net subnet) (gateway_ip_offset offs) \<and>
        \<not> isl (str_at L (list_net subnet) (gateway_ip_offset offs))"
    using g by (intro entry_field_has_field[OF e]) simp
  have 2: "entry_field s' net_type ''reserved_start'' = str_at L (list_net subnet) (VInt 1) \<and>
        \<not> isl (str_at L (list_net subnet) (VInt 1))"
    using g by (intro entry_field_has_field[OF e]) simp
  have 3: "entry_field s' net_type ''reserved_end'' =
        str_at L (list_net subnet) (ip_offset_for offs net_type) \<and>
        \<not> isl (str_at L (list_net subnet) (ip_offset_for offs net_type))"
    using g by (intro entry_field_has_field[OF e]) simp
  have 4: "entry_field s' net_type ''static_start'' =
        ebind (add_one (ip_offset_for offs net_type)) (str_at L (list_net subnet)) \<and>
        \<not> isl (ebind (add_one (ip_offset_for offs net_type)) (str_at L (list_net subnet)))"
    using g by (intro entry_field_has_field[OF e]) simp
  have 5: "entry_field s' net_type ''static_end'' =
        str_at L (list_net subnet) (static_ip_end_offset offs) \<and>
        \<not> isl (str_at L (list_net subnet) (static_ip_end_offset offs))"
    using se by (rule entry_field_has_field[OF e])
  show ?thesis using 1 2 3 4 5 by (simp add: ip_offset_for_def)
qed

theorem ip_alloc_offset_general_fields_witness:
  "apply_rule_ip_alloc_offset ipv4 example_rule_data example_engine = Inr example_engine' \<and>
   collect_rules example_rule_data = Inr example_offsets \<and>
   network_subnet ipv4 example_engine ''storage'' =
     Inr \<lparr>net_version = 4, net_value = 3232238080, net_prefixlen = 24\<rparr> \<and>
   entry_field example_engine' ''storage'' ''gateway'' = Inr (VStr ''192.168.10.1'') \<and>
   entry_field example_engine' ''storage'' ''reserved_start'' = Inr (VStr ''192.168.10.1'') \<and>
   entry_field example_engine' ''storage'' ''reserved_end'' = Inr (VStr ''192.168.10.50'') \<and>
   entry_field example_engine' ''storage'' ''static_start'' = Inr (VStr ''192.168.10.51'') \<and>
   entry_field example_engine' ''storage'' ''static_end'' = Inr (VStr ''192.168.10.200'')"
proof -
  have "entry_field example_engine' ''storage'' ''gateway'' = Inr (VStr ''192.168.10.1'') \<and>
   entry_field example_engine' ''storage'' ''reserved_start'' = Inr (VStr ''192.168.10.1'') \<and>
   entry_field example_engine' ''storage'' ''reserved_end'' = Inr (VStr ''192.168.10.50'') \<and>
   entry_field example_engine' ''storage'' ''static_start'' = Inr (VStr ''192.168.10.51'') \<and>
   entry_field example_engine' ''storage'' ''static_end'' = Inr (VStr ''192.168.10.200'')"
    using ip_alloc_offset_general_fields[OF example_run' example_collect example_subnet_storage]
    by (simp add: example_offsets_def ip_offset_for_def add_one_def str_at_list_net
        example_storage_size ipv4_eval)
  then show ?thesis
    using example_run' example_collect example_subnet_storage by simp
qed

lemma apply_rule_resolved_entry:
  assumes "apply_rule_ip_alloc_offset L rule_data s = Inr s'"
    and "vlan_network_entry s net_type = Inr ent"
    and "net_type \<noteq> ''ingress''"
  obtains offs subnet e where "resolve_network L offs subnet net_type s = Inr e"
    "vlan_network_entry s' net_type = Inr (VDict e)"
  using apply_rule_entry[OF assms] by blast

lemma example_entry_storage:
  "vlan_network_entry example_engine ''storage'' =
     Inr (VDict [(''subnet'', VStr ''192.168.10.0/24''), (''vlan'', VStr ''23''),
                 (''mtu'', VInt 9000)])"
  by (simp add: vlan_network_entry_def example_engine_def example_network_def dict_getitem_def)

lemma example_entry_oam:
  "vlan_network_entry example_engine ''oam'' =
     Inr (VDict [(''subnet'', VStr ''10.0.4.0/24''), (''vlan'', VStr ''22'')])"
  by (simp add: vlan_network_entry_def example_engine_def example_network_def dict_getitem_def)

lemma example_entry_oob:
  "vlan_network_entry example_engine ''oob'' = Inr (VDict [(''subnet'', VStr ''10.0.2.0/24'')])"
  by (simp add: vlan_network_entry_def example_engine_def example_network_def dict_getitem_def)

lemmas example_entry_eval = entry_field_def vlan_network_entry_def example_engine'_def
  example_engine_def example_network'_def dict_getitem_def

text \<open>
  Claim C7. For every network type that the offset rule processes, the routes field of
  the resolved entry is \<open>["0.0.0.0/0"]\<close> if and only if the type is \<open>oam\<close>, and the
  empty list for every other type.
\<close>

theorem routes_only_for_oam:
  assumes "apply_rule_ip_alloc_offset L rule_data s = Inr s'"
    and "vlan_network_entry s net_type = Inr ent"
    and "net_type \<noteq> ''ingress''"
  shows "entry_field s' net_type ''routes'' =
           Inr (VList (if net_type = ''oam'' then [VStr ''0.0.0.0/0''] else [])) \<and>
         (entry_field s' net_type ''routes'' = Inr (VList [VStr ''0.0.0.0/0'']) \<longleftrightarrow>
            net_type = ''oam'') \<and>
         (net_type \<noteq> ''oam'' \<longrightarrow> entry_field s' net_type ''routes'' = Inr (VList []))"
proof -
  from assms obtain offs subnet e where r: "resolve_network L offs subnet net_type s = Inr e"
    and e: "vlan_network_entry s' net_type = Inr (VDict e)"
    by (rule apply_rule_resolved_entry)
  have "has_field e ''routes''
          (Inr (VList (if net_type = ''oam'' then [VStr ''0.0.0.0/0''] else [])))"
    using resolve_network_routes[OF r] by simp
  from entry_field_has_field[OF e this] show ?thesis by simp
qed

theorem routes_only_for_oam_witness:
  "apply_rule_ip_alloc_offset ipv4 example_rule_data example_engine = Inr example_engine' \<and>
   \<not> isl (vlan_network_entry example_engine ''oam'') \<and>
   \<not> isl (vlan_network_entry example_engine ''storage'') \<and>
   entry_field example_engine' ''oam'' ''routes'' = Inr (VList [VStr ''0.0.0.0/0'']) \<and>
   entry_field example_engine' ''storage'' ''routes'' = Inr (VList [])"
  using routes_only_for_oam[OF example_run' example_entry_oam]
    routes_only_for_oam[OF example_run' example_entry_storage]
    example_run' example_entry_oam example_entry_storage
  by simp

text \<open>
  Claim C8. After the offset rule has run, the resolved entry of the type \<open>oob\<close> has no
  vlan field, and the resolved entry of every other type except \<open>ingress\<close> has a vlan
  field equal to the vlan of the entry before the rule ran.
\<close>

theorem vlan_copied_except_oob:
  assumes "apply_rule_ip_alloc_offset L rule_data s = Inr s'"
    and "vlan_network_entry s net_type = Inr ent"
    and "net_type \<noteq> ''ingress''"
  shows "(net_type = ''oob'' \<longrightarrow> entry_field s' net_type ''vlan'' = Inl KeyError) \<and>
         (net_type \<noteq> ''oob'' \<longrightarrow>
            \<not> isl (getitem ent ''vlan'') \<and>
            entry_field s' net_type ''vlan'' = getitem ent ''vlan'')"
proof -
  from assms obtain offs subnet e where r: "resolve_network L offs subnet net_type s = Inr e"
    and e: "vlan_network_entry s' net_type = Inr (VDict e)"
    by (rule apply_rule_resolved_entry)
  note v = resolve_network_vlan[OF r]
  have 1: "net_type = ''oob'' \<longrightarrow> entry_field s' net_type ''vlan'' = Inl KeyError"
    using v entry_field_absent[OF e, of "''vlan''"] by blast
  have 2: "net_type \<noteq> ''oob'' \<longrightarrow>
            \<not> isl (getitem ent ''vlan'') \<and>
            entry_field s' net_type ''vlan'' = getitem ent ''vlan''"
  proof
    assume "net_type \<noteq> ''oob''"
    then have "has_field e ''vlan'' (getitem ent ''vlan'')"
      using v assms(2) by simp
    from entry_field_has_field[OF e this]
    show "\<not> isl (getitem ent ''vlan'') \<and> entry_field s' net_type ''vlan'' = getitem ent ''vlan''"
      by simp
  qed
  from 1 2 show ?thesis by simp
qed

theorem vlan_copied_except_oob_witness:
  "apply_rule_ip_alloc_offset ipv4 example_rule_data example_engine = Inr example_engine' \<and>
   \<not> isl (vlan_network_entry example_engine ''oob'') \<and>
   \<not> isl (vlan_network_entry example_engine ''storage'') \<and>
   entry_field example_engine' ''oob'' ''vlan'' = Inl KeyError \<and>
   entry_field example_engine ''storage'' ''vlan'' = Inr (VStr ''23'') \<and>
   entry_field example_engine' ''storage'' ''vlan'' = Inr (VStr ''23'')"
proof -
  have "entry_field example_engine ''storage'' ''vlan'' = Inr (VStr ''23'')"
    by (simp add: entry_field_def example_entry_storage dict_getitem_def)
  then show ?thesis
    using vlan_copied_except_oob[OF example_run' example_entry_oob]
      vlan_copied_except_oob[OF example_run' example_entry_storage]
      example_run' example_entry_oob example_entry_storage
    by (simp add: dict_getitem_def)
qed

text \<open>
  Claim C10. For every network type other than \<open>ingress\<close>, the offset rule replaces the
  whole entry in \<open>vlan_network_data\<close> by a new mapping whose keys are exactly network,
  gateway, reserved_start, reserved_end, static_start, static_end and routes, with
  dhcp_start and dhcp_end for \<open>pxe\<close> and vlan for the types other than \<open>oob\<close>; the
  \<open>subnet\<close> key of the old entry, and any other key of it outside that set, is absent
  from the new entry.
\<close>

theorem entry_replaced_by_resolved_fields:
  assumes "apply_rule_ip_alloc_offset L rule_data s = Inr s'"
    and "vlan_network_entry s net_type = Inr ent"
    and "net_type \<noteq> ''ingress''"
  shows "\<exists>e. vlan_network_entry s' net_type = Inr (VDict e) \<and>
           map fst e = entry_keys net_type \<and>
           set (entry_keys net_type) =
             {''network'', ''gateway'', ''reserved_start'', ''reserved_end'',
              ''static_start'', ''static_end'', ''routes''} \<union>
             (if net_type = ''pxe'' then {''dhcp_start'', ''dhcp_end''} else {}) \<union>
             (if net_type \<noteq> ''oob'' then {''vlan''} else {}) \<and>
           entry_field s' net_type ''subnet'' = Inl KeyError \<and>
           (k \<notin> set (entry_keys net_type) \<longrightarrow> entry_field s' net_type k = Inl KeyError)"
proof -
  from assms obtain offs subnet e where r: "resolve_network L offs subnet net_type s = Inr e"
    and e: "vlan_network_entry s' net_type = Inr (VDict e)"
    by (rule apply_rule_resolved_entry)
  have keys: "map fst e = entry_keys net_type" by (rule resolve_network_keys[OF r])
  have absent: "map_of e k' = None" if "k' \<notin> set (entry_keys net_type)" for k'
    using that keys by (metis map_of_eq_None_iff set_map)
  have "''subnet'' \<notin> set (entry_keys net_type)" by (simp add: entry_keys_def)
  then have 1: "entry_field s' net_type ''subnet'' = Inl KeyError"
    using absent entry_field_absent[OF e] by simp
  have 2: "k \<notin> set (entry_keys net_type) \<longrightarrow> entry_field s' net_type k = Inl KeyError"
    using absent entry_field_absent[OF e] by simp
  have 3: "set (entry_keys net_type) =
             {''network'', ''gateway'', ''reserved_start'', ''reserved_end'',
              ''static_start'', ''static_end'', ''routes''} \<union>
             (if net_type = ''pxe'' then {''dhcp_start'', ''dhcp_end''} else {}) \<union>
             (if net_type \<noteq> ''oob'' then {''vlan''} else {})"
    by (auto simp: entry_keys_def)
  from e keys 1 2 3 show ?thesis by blast
qed

theorem entry_replaced_by_resolved_fields_witness:
  "apply_rule_ip_alloc_offset ipv4 example_rule_data example_engine = Inr example_engine' \<and>
   \<not> isl (vlan_network_entry example_engine ''storage'') \<and>
   entry_field example_engine ''storage'' ''mtu'' = Inr (VInt 9000) \<and>
   ''mtu'' \<notin> set (entry_keys ''storage'') \<and>
   entry_field example_engine' ''storage'' ''subnet'' = Inl KeyError \<and>
   entry_field example_engine' ''storage'' ''mtu'' = Inl KeyError"
proof -
  have "entry_field example_engine ''storage'' ''mtu'' = Inr (VInt 9000)"
    by (simp add: entry_field_def example_entry_storage dict_getitem_def)
  moreover have "''mtu'' \<notin> set (entry_keys ''storage'')" by (simp add: entry_keys_def)
  ultimately show ?thesis
    using entry_replaced_by_resolved_fields[OF example_run' example_entry_storage, of "''mtu''"]
      example_run' example_entry_storage
    by auto
qed

lemma list_getitem_one: "list_getitem xs 1 = Inr x \<Longrightarrow> 1 < length xs"
  by (simp add: list_getitem_def split: if_splits)

lemma str_at_one: "str_at L ips (VInt 1) = Inr v \<Longrightarrow> 1 < length ips"
  by (auto simp: str_at_def ips_getitem_def elim!: ebind_InrE dest: list_getitem_one)

lemma str_at_int_nth:
  "0 \<le> k \<Longrightarrow> k < int (length ips) \<Longrightarrow>
   str_at_int L ips k = Inr (VStr (str_ip L (ips ! nat k)))"
  by (simp add: str_at_int_def list_getitem_def)

lemma list_net_nth: "k < net_size n \<Longrightarrow> list_net n ! k = IPAddress (net_version n) (net_first n + k)"
  by (simp add: list_net_def)

lemma example_subnet_pxe:
  "network_subnet ipv4 example_engine ''pxe'' =
     Inr \<lparr>net_version = 4, net_value = 167772928, net_prefixlen = 24\<rparr>"
  by (simp add: network_subnet_def vlan_network_entry_def example_engine_def
      example_network_def dict_getitem_def ipv4_eval)

lemma example_pxe_size:
  "net_size \<lparr>net_version = 4, net_value = 167772928, net_prefixlen = 24\<rparr> = 256"
  "net_first \<lparr>net_version = 4, net_value = 167772928, net_prefixlen = 24\<rparr> = 167772928"
  by (simp_all add: net_size_def net_width_def net_first_def)

text \<open>
  Claim C4. For the type \<open>pxe\<close>, with \<open>ips\<close> of length N and \<open>mid = N // 2\<close>: static_end
  is \<open>ips[mid - 1]\<close>, dhcp_start is \<open>ips[mid]\<close> and dhcp_end is
  \<open>ips[offsets.dhcp_ip_end]\<close>; so the two are neighbours in the list, one index and one
  address apart, whatever the static_ip_end offset is; the other fields are those of the
  general case.
\<close>

theorem pxe_split_at_midpoint:
  assumes "apply_rule_ip_alloc_offset L rule_data s = Inr s'"
    and "collect_rules rule_data = Inr offs"
    and "network_subnet L s ''pxe'' = Inr subnet"
    and "mid = int (length (list_net subnet)) div 2"
  shows "entry_field s' ''pxe'' ''static_end'' = str_at_int L (list_net subnet) (mid - 1) \<and>
         entry_field s' ''pxe'' ''dhcp_start'' = str_at_int L (list_net subnet) mid \<and>
         entry_field s' ''pxe'' ''dhcp_end'' =
           str_at L (list_net subnet) (dhcp_ip_end_offset offs) \<and>
         \<not> isl (entry_field s' ''pxe'' ''dhcp_end'') \<and>
         1 \<le> mid \<and> mid < int (length (list_net subnet)) \<and>
         entry_field s' ''pxe'' ''static_end'' =
           Inr (VStr (str_ip L (list_net subnet ! (nat mid - 1)))) \<and>
         entry_field s' ''pxe'' ''dhcp_start'' =
           Inr (VStr (str_ip L (list_net subnet ! nat mid))) \<and>
         nat mid - (nat mid - 1) = 1 \<and>
         ip_value (list_net subnet ! nat mid) =
           ip_value (list_net subnet ! (nat mid - 1)) + 1 \<and>
         entry_field s' ''pxe'' ''gateway'' =
           str_at L (list_net subnet) (gateway_ip_offset offs) \<and>
         entry_field s' ''pxe'' ''reserved_start'' = str_at L (list_net subnet) (VInt 1) \<and>
         entry_field s' ''pxe'' ''reserved_end'' =
           str_at L (list_net subnet) (default_ip_offset offs) \<and>
         entry_field s' ''pxe'' ''static_start'' =
           ebind (add_one (default_ip_offset offs)) (str_at L (list_net subnet))"
proof -
  have ni: "''pxe'' \<noteq> ''ingress''" by simp
  from assms(1-3) ni obtain e where r: "resolve_network L offs subnet ''pxe'' s = Inr e"
    and e: "vlan_network_entry s' ''pxe'' = Inr (VDict e)"
    by (rule apply_rule_resolved)
  note g = resolve_network_general[OF r]
  have p: "has_field e ''static_end'' (str_at_int L (list_net subnet) (mid - 1))"
    "has_field e ''dhcp_start'' (str_at_int L (list_net subnet) mid)"
    "has_field e ''dhcp_end'' (str_at L (list_net subnet) (dhcp_ip_end_offset offs))"
    using resolve_network_pxe[OF r] assms(4) by simp_all
  have "\<not> isl (str_at L (list_net subnet) (VInt 1))"
    using g entry_field_has_field[OF e, of "''reserved_start''"] by blast
  then obtain v where "str_at L (list_net subnet) (VInt 1) = Inr v"
    by (cases "str_at L (list_net subnet) (VInt 1)") auto
  then have len: "1 < length (list_net subnet)" by (rule str_at_one)
  then have m: "1 \<le> mid" "mid < int (length (list_net subnet))"
    using assms(4) by simp_all
  then have m1: "0 \<le> mid - 1" "mid - 1 < int (length (list_net subnet))" "0 \<le> mid"
    by simp_all
  have nm: "nat (mid - 1) = nat mid - 1" by simp
  have a: "str_at_int L (list_net subnet) (mid - 1) =
        Inr (VStr (str_ip L (list_net subnet ! (nat mid - 1))))"
    using str_at_int_nth[OF m1(1,2), of L] nm by simp
  have b: "str_at_int L (list_net subnet) mid = Inr (VStr (str_ip L (list_net subnet ! nat mid)))"
    using str_at_int_nth[OF m1(3) m(2), of L] by simp
  have k: "nat mid < net_size subnet" "nat mid - 1 < net_size subnet" "1 \<le> nat mid"
    using m by simp_all
  have adj: "ip_value (list_net subnet ! nat mid) =
        ip_value (list_net subnet ! (nat mid - 1)) + 1"
    using k by (simp add: list_net_nth)
  have d: "nat mid - (nat mid - 1) = 1" using k(3) by simp
  have o: "ip_offset_for offs ''pxe'' = default_ip_offset offs" by (simp add: ip_offset_for_def)
  show ?thesis
    using entry_field_has_field[OF e p(1)] entry_field_has_field[OF e p(2)]
      entry_field_has_field[OF e p(3)]
      entry_field_has_field[OF e, of "''gateway''"]
      entry_field_has_field[OF e, of "''reserved_start''"]
      entry_field_has_field[OF e, of "''reserved_end''"]
      entry_field_has_field[OF e, of "''static_start''"]
      g a b m adj d unfolding o
    by (simp only:) blast
qed

theorem pxe_split_at_midpoint_witness:
  "apply_rule_ip_alloc_offset ipv4 example_rule_data example_engine = Inr example_engine' \<and>
   collect_rules example_rule_data = Inr example_offsets \<and>
   network_subnet ipv4 example_engine ''pxe'' =
     Inr \<lparr>net_version = 4, net_value = 167772928, net_prefixlen = 24\<rparr> \<and>
   (128::int) = int (length (list_net
     \<lparr>net_version = 4, net_value = 167772928, net_prefixlen = 24\<rparr>)) div 2 \<and>
   entry_field example_engine' ''pxe'' ''static_end'' = Inr (VStr ''10.0.3.127'') \<and>
   entry_field example_engine' ''pxe'' ''dhcp_start'' = Inr (VStr ''10.0.3.128'') \<and>
   entry_field example_engine' ''pxe'' ''dhcp_end'' = Inr (VStr ''10.0.3.220'')"
proof -
  have mid: "(128::int) = int (length (list_net
     \<lparr>net_version = 4, net_value = 167772928, net_prefixlen = 24\<rparr>)) div 2"
    by (simp add: example_pxe_size)
  have "entry_field example_engine' ''pxe'' ''static_end'' = Inr (VStr ''10.0.3.127'') \<and>
   entry_field example_engine' ''pxe'' ''dhcp_start'' = Inr (VStr ''10.0.3.128'') \<and>
   entry_field example_engine' ''pxe'' ''dhcp_end'' = Inr (VStr ''10.0.3.220'')"
    using pxe_split_at_midpoint[OF example_run' example_collect example_subnet_pxe mid]
    by (simp add: example_offsets_def str_at_list_net str_at_int_list_net
        example_pxe_size list_net_nth ipv4_eval)
  then show ?thesis using example_run' example_collect example_subnet_pxe mid by simp
qed

lemma ingress_first_subnet_list:
  "ingress_subnets s = Inr (VList (c # cs)) \<Longrightarrow> ingress_first_subnet s = Inr c"
  unfolding ingress_subnets_def ingress_first_subnet_def
  by (elim ebind_InrE) (simp add: list_getitem_def)

lemma example_ingress_subnets:
  "ingress_subnets example_engine = Inr (VList [VStr ''10.0.1.0/24'', VStr ''10.0.9.0/24''])"
  by (simp add: ingress_subnets_def vlan_network_entry_def example_engine_def
      example_network_def dict_getitem_def)

text \<open>
  Claim C5. The type \<open>ingress\<close> is left out of the per-type processing: its entry is
  unchanged. The rule sets \<open>bgp.ingress_vip\<close> to \<open>ips[offsets.ingress_vip]\<close>, where
  \<open>ips\<close> is the address list of the first subnet of the ingress network's subnet
  sequence, and \<open>bgp.public_service_cidr\<close> to that first subnet as it is.
\<close>

theorem ingress_sets_bgp:
  assumes "apply_rule_ip_alloc_offset L rule_data s = Inr s'"
    and "collect_rules rule_data = Inr offs"
    and "ingress_subnets s = Inr (VList (c # cs))"
  shows "\<not> isl (IPNetwork L c) \<and>
         bgp_field s' ''ingress_vip'' =
           str_at L (list_net (projr (IPNetwork L c))) (ingress_vip_offset offs) \<and>
         \<not> isl (bgp_field s' ''ingress_vip'') \<and>
         bgp_field s' ''public_service_cidr'' = Inr c \<and>
         vlan_network_entry s' ''ingress'' = vlan_network_entry s ''ingress''"
proof -
  have f: "ingress_first_subnet s = Inr c"
    using assms(3) by (rule ingress_first_subnet_list)
  from apply_rule_bgp[OF assms(1)] obtain offs' cidr subnet vip where
    b: "collect_rules rule_data = Inr offs'" "ingress_first_subnet s = Inr cidr"
       "IPNetwork L cidr = Inr subnet"
       "str_at L (list_net subnet) (ingress_vip_offset offs') = Inr vip"
       "bgp_field s' ''ingress_vip'' = Inr vip"
       "bgp_field s' ''public_service_cidr'' = Inr cidr"
    by blast
  have eq: "offs' = offs" "cidr = c" using b(1,2) assms(2) f by simp_all
  have u: "vlan_network_entry s' ''ingress'' = vlan_network_entry s ''ingress''"
    using assms(1) by (rule apply_rule_entry_unchanged) simp
  show ?thesis using b eq u by simp
qed

theorem ingress_sets_bgp_witness:
  "apply_rule_ip_alloc_offset ipv4 example_rule_data example_engine = Inr example_engine' \<and>
   collect_rules example_rule_data = Inr example_offsets \<and>
   ingress_subnets example_engine = Inr (VList [VStr ''10.0.1.0/24'', VStr ''10.0.9.0/24'']) \<and>
   bgp_field example_engine' ''ingress_vip'' = Inr (VStr ''10.0.1.5'') \<and>
   bgp_field example_engine' ''public_service_cidr'' = Inr (VStr ''10.0.1.0/24'') \<and>
   vlan_network_entry example_engine' ''ingress'' = vlan_network_entry example_engine ''ingress''"
proof -
  have n: "IPNetwork ipv4 (VStr ''10.0.1.0/24'') =
      Inr \<lparr>net_version = 4, net_value = 167772416, net_prefixlen = 24\<rparr>"
    by (simp add: ipv4_eval)
  have z: "net_size \<lparr>net_version = 4, net_value = 167772416, net_prefixlen = 24\<rparr> = 256"
    "net_first \<lparr>net_version = 4, net_value = 167772416, net_prefixlen = 24\<rparr> = 167772416"
    by (simp_all add: net_size_def net_width_def net_first_def)
  have v: "str_at ipv4 (list_net \<lparr>net_version = 4, net_value = 167772416, net_prefixlen = 24\<rparr>)
      (VInt 5) = Inr (VStr ''10.0.1.5'')"
    by (simp add: str_at_list_net z) (simp add: ipv4_eval)
  have "bgp_field example_engine' ''ingress_vip'' = Inr (VStr ''10.0.1.5'') \<and>
   bgp_field example_engine' ''public_service_cidr'' = Inr (VStr ''10.0.1.0/24'') \<and>
   vlan_network_entry example_engine' ''ingress'' = vlan_network_entry example_engine ''ingress''"
    using ingress_sets_bgp[OF example_run' example_collect example_ingress_subnets] n v
    by (simp add: example_offsets_def)
  then show ?thesis using example_run' example_collect example_ingress_subnets by simp
qed

end
